theory Spec2Isabelle
  imports Complex_Main "HOL-Library.Multiset"
begin

section \<open>Python values used by InstaScan\<close>

text \<open>
  Exceptions are values. Every constructor stands for a class deriving from Python's
  \<open>Exception\<close>, so each of them is caught by an \<open>except Exception\<close> clause;
  the string is the message \<open>str(e)\<close>.
\<close>

datatype exn =
    KeyError
  | IndexError
  | ValueError string
  | ProviderError string
  | RequestError string

fun str_of_exn :: "exn \<Rightarrow> string" where
  "str_of_exn KeyError = ''KeyError''"
| "str_of_exn IndexError = ''list index out of range''"
| "str_of_exn (ValueError m) = m"
| "str_of_exn (ProviderError m) = m"
| "str_of_exn (RequestError m) = m"

text \<open>
  A dictionary is an association list in insertion order, as Python's \<open>dict\<close> keeps it.
  \<open>dict_set\<close> is \<open>d[k] = v\<close>: an existing key keeps its place, a new key goes last.
  \<open>dict_incr\<close> is \<open>d[k] += 1\<close>, which raises \<open>KeyError\<close> on a key that is not there.
\<close>

fun dict_get :: "('k \<times> 'v) list \<Rightarrow> 'k \<Rightarrow> 'v option" where
  "dict_get [] k = None"
| "dict_get ((k', v) # d) k = (if k' = k then Some v else dict_get d k)"

fun dict_set :: "'k \<Rightarrow> 'v \<Rightarrow> ('k \<times> 'v) list \<Rightarrow> ('k \<times> 'v) list" where
  "dict_set k v [] = [(k, v)]"
| "dict_set k v ((k', v') # d) = (if k' = k then (k, v) # d else (k', v') # dict_set k v d)"

definition dict_keys :: "('k \<times> 'v) list \<Rightarrow> 'k list" where
  "dict_keys d = map fst d"

definition dict_incr :: "'k \<Rightarrow> ('k \<times> nat) list \<Rightarrow> exn + ('k \<times> nat) list" where
  "dict_incr k d = (case dict_get d k of
      None \<Rightarrow> Inl KeyError
    | Some c \<Rightarrow> Inr (dict_set k (c + 1) d))"

text \<open>\<open>xs[i]\<close> for a non-negative index: \<open>IndexError\<close> out of range.\<close>

definition getitem :: "'a list \<Rightarrow> nat \<Rightarrow> exn + 'a" where
  "getitem xs i = (if i < length xs then Inr (xs ! i) else Inl IndexError)"

text \<open>
  \<open>max(iterable, key=f)\<close>: the running maximum is replaced only by a strictly greater
  item, so the first maximal item in iteration order is returned; on an empty iterable
  \<open>max\<close> raises \<open>ValueError\<close>.
\<close>

fun py_max_from :: "('a \<Rightarrow> nat) \<Rightarrow> 'a \<Rightarrow> 'a list \<Rightarrow> 'a" where
  "py_max_from f best [] = best"
| "py_max_from f best (x # xs) = py_max_from f (if f best < f x then x else best) xs"

definition py_max :: "('a \<Rightarrow> nat) \<Rightarrow> 'a list \<Rightarrow> exn + 'a" where
  "py_max f xs = (case xs of
      [] \<Rightarrow> Inl (ValueError ''max() arg is an empty sequence'')
    | x # rest \<Rightarrow> Inr (py_max_from f x rest))"

subsection \<open>Naive datetimes\<close>

text \<open>
  \<open>post.date_utc\<close> is a naive \<open>datetime.datetime\<close>. The record has the fields of the
  Python object; \<open>valid_datetime\<close> is the range check of its constructor. The
  functions below follow CPython's \<open>datetime\<close> module: \<open>toordinal\<close> counts days from
  0001-01-01 (day 1, a Monday), \<open>weekday\<close> is \<open>(toordinal() + 6) % 7\<close>, and the
  difference of two datetimes is a \<open>timedelta\<close> whose \<open>days\<close> is the floor of the
  difference in days.
\<close>

record datetime =
  year :: nat
  month :: nat
  day :: nat
  hour :: nat
  minute :: nat
  second :: nat
  microsecond :: nat

definition is_leap :: "nat \<Rightarrow> bool" where
  "is_leap y = (y mod 4 = 0 \<and> (y mod 100 \<noteq> 0 \<or> y mod 400 = 0))"

definition days_before_month_table :: "nat list" where
  "days_before_month_table = [0, 31, 59, 90, 120, 151, 181, 212, 243, 273, 304, 334]"

definition days_in_month :: "nat \<Rightarrow> nat \<Rightarrow> nat" where
  "days_in_month y m =
     (if m = 2 \<and> is_leap y then 29
      else [31, 28, 31, 30, 31, 30, 31, 31, 30, 31, 30, 31] ! (m - 1))"

definition valid_datetime :: "datetime \<Rightarrow> bool" where
  "valid_datetime t =
     (1 \<le> year t \<and> year t \<le> 9999 \<and> 1 \<le> month t \<and> month t \<le> 12 \<and>
      1 \<le> day t \<and> day t \<le> days_in_month (year t) (month t) \<and>
      hour t < 24 \<and> minute t < 60 \<and> second t < 60 \<and> microsecond t < 1000000)"

definition days_before_year :: "nat \<Rightarrow> nat" where
  "days_before_year y =
     (let y1 = y - 1 in y1 * 365 + y1 div 4 - y1 div 100 + y1 div 400)"

definition days_before_month :: "nat \<Rightarrow> nat \<Rightarrow> nat" where
  "days_before_month y m =
     days_before_month_table ! (m - 1) + (if 2 < m \<and> is_leap y then 1 else 0)"

definition toordinal :: "datetime \<Rightarrow> nat" where
  "toordinal t = days_before_year (year t) + days_before_month (year t) (month t) + day t"

definition weekday :: "datetime \<Rightarrow> nat" where
  "weekday t = (toordinal t + 6) mod 7"

text \<open>
  \<open>(a - b).days\<close>: the timedelta is built from the differences of the ordinals, of the
  seconds of the day and of the microseconds, and normalised so that seconds and
  microseconds are non-negative; \<open>days\<close> is then the floor of the whole difference.
\<close>

definition seconds_of_day :: "datetime \<Rightarrow> int" where
  "seconds_of_day t = int (second t) + int (minute t) * 60 + int (hour t) * 3600"

definition timedelta_days :: "int \<Rightarrow> int \<Rightarrow> int \<Rightarrow> int" where
  "timedelta_days d s us = (d * 86400000000 + s * 1000000 + us) div 86400000000"

definition sub_days :: "datetime \<Rightarrow> datetime \<Rightarrow> int" where
  "sub_days a b =
     timedelta_days (int (toordinal a) - int (toordinal b))
       (seconds_of_day a - seconds_of_day b)
       (int (microsecond a) - int (microsecond b))"

section \<open>PatternAnalyzer: \<open>analyze_posting_patterns\<close>\<close>

text \<open>
  The values of the returned dictionary: a day name, an hour, the two histograms, and
  the frequency, which is the float quotient of two integers (kept as the exact
  rational; Python rounds it to the nearest double) or the integer \<open>0\<close>.
\<close>

datatype tval =
    TStr string
  | TInt int
  | TFloat rat
  | TDayCounts "(string \<times> nat) list"
  | THourCounts "(nat \<times> nat) list"

type_synonym time_patterns = "(string \<times> tval) list"

definition days_of_week :: "string list" where
  "days_of_week =
     [''Monday'', ''Tuesday'', ''Wednesday'', ''Thursday'', ''Friday'', ''Saturday'', ''Sunday'']"

text \<open>The loop over \<open>post_times\<close>: one increment of the day bucket and one of the hour bucket.\<close>

fun count_loop ::
  "datetime list \<Rightarrow> (string \<times> nat) list \<Rightarrow> (nat \<times> nat) list \<Rightarrow>
   exn + ((string \<times> nat) list \<times> (nat \<times> nat) list)" where
  "count_loop [] day_counts hour_counts = Inr (day_counts, hour_counts)"
| "count_loop (post_time # rest) day_counts hour_counts =
     (case getitem days_of_week (weekday post_time) of
        Inl e \<Rightarrow> Inl e
      | Inr name \<Rightarrow>
          (case dict_incr name day_counts of
             Inl e \<Rightarrow> Inl e
           | Inr day_counts' \<Rightarrow>
               (case dict_incr (hour post_time) hour_counts of
                  Inl e \<Rightarrow> Inl e
                | Inr hour_counts' \<Rightarrow> count_loop rest day_counts' hour_counts')))"

definition post_frequency :: "datetime list \<Rightarrow> tval" where
  "post_frequency post_times =
     (if 1 < length post_times
      then TFloat (of_nat (length post_times) /
                   of_int (max (sub_days (hd post_times) (last post_times)) 1))
      else TInt 0)"

definition analyze_posting_patterns :: "datetime list \<Rightarrow> exn + time_patterns" where
  "analyze_posting_patterns post_times =
     (if post_times = [] then Inr []
      else
        (case count_loop post_times (map (\<lambda>d. (d, 0)) days_of_week)
                (map (\<lambda>h. (h, 0)) [0..<24]) of
           Inl e \<Rightarrow> Inl e
         | Inr (day_counts, hour_counts) \<Rightarrow>
             (case py_max snd day_counts of
                Inl e \<Rightarrow> Inl e
              | Inr most_active_day \<Rightarrow>
                  (case py_max snd hour_counts of
                     Inl e \<Rightarrow> Inl e
                   | Inr most_active_hour \<Rightarrow>
                       Inr [(''most_active_day'', TStr (fst most_active_day)),
                            (''day_activity'', TDayCounts day_counts),
                            (''most_active_hour'', TInt (int (fst most_active_hour))),
                            (''hour_activity'', THourCounts hour_counts),
                            (''post_frequency_days'', post_frequency post_times)]))))"

section \<open>PostAggregator: \<open>analyze_posts\<close>\<close>

subsection \<open>The provider's data\<close>

text \<open>
  A lazy sequence of the provider (\<open>profile.get_posts()\<close>, \<open>get_followers()\<close>,
  \<open>get_followees()\<close>) is what its iterator answers to the \<open>i\<close>-th call of \<open>next\<close>:
  an item, the end of the sequence, or an exception. Nothing is read after the first
  answer that is not an item. A sequence may yield items for ever. A call
  \<open>profile.get_posts()\<close> that raises is the sequence that raises at index \<open>0\<close>.
\<close>

datatype 'a step = Item 'a | StopIteration | Raised exn

type_synonym 'a lazy_seq = "nat \<Rightarrow> 'a step"

record post_location =
  loc_name :: string
  loc_id :: int
  lat :: "rat option"
  lng :: "rat option"

text \<open>
  A post as the loop body reads it. The attributes are taken as data already fetched:
  an exception while the sequence produces the post is \<open>Raised\<close> at its index.
\<close>

record post =
  shortcode :: string
  date_utc :: datetime
  likes :: int
  comments :: int
  caption :: "string option"
  location :: "post_location option"
  caption_hashtags :: "string list"
  caption_mentions :: "string list"
  is_video :: bool

record user =
  username :: string
  full_name :: string
  is_verified :: bool

record profile =
  is_private :: bool
  get_posts :: "post lazy_seq"
  get_followers :: "user lazy_seq"
  get_followees :: "user lazy_seq"

subsection \<open>Per-post records\<close>

text \<open>The values stored in the per-post and per-location dictionaries.\<close>

datatype pyval =
    PNone
  | PBool bool
  | PInt int
  | PFloat rat
  | PStr string
  | PStrList "string list"

type_synonym pydict = "(string \<times> pyval) list"

text \<open>\<open>strftime("%Y-%m-%d %H:%M:%S")\<close>: zero-padded decimal fields.\<close>

definition digit :: "nat \<Rightarrow> char" where
  "digit n = ''0123456789'' ! (n mod 10)"

definition zfill2 :: "nat \<Rightarrow> string" where
  "zfill2 n = [digit (n div 10), digit n]"

definition zfill4 :: "nat \<Rightarrow> string" where
  "zfill4 n = [digit (n div 1000), digit (n div 100), digit (n div 10), digit n]"

definition strftime :: "datetime \<Rightarrow> string" where
  "strftime t =
     zfill4 (year t) @ ''-'' @ zfill2 (month t) @ ''-'' @ zfill2 (day t) @ '' '' @
     zfill2 (hour t) @ '':'' @ zfill2 (minute t) @ '':'' @ zfill2 (second t)"

definition post_url :: "string \<Rightarrow> string" where
  "post_url sc = ''https://www.instagram.com/p/'' @ sc @ ''/''"

definition opt_float :: "rat option \<Rightarrow> pyval" where
  "opt_float x = (case x of None \<Rightarrow> PNone | Some r \<Rightarrow> PFloat r)"

definition make_post_data :: "post \<Rightarrow> pydict" where
  "make_post_data p =
     [(''shortcode'', PStr (shortcode p)),
      (''url'', PStr (post_url (shortcode p))),
      (''timestamp'', PStr (strftime (date_utc p))),
      (''likes'', PInt (likes p)),
      (''comments'', PInt (comments p)),
      (''caption'', PStr (case caption p of None \<Rightarrow> [] | Some c \<Rightarrow> c)),
      (''location'', (case location p of None \<Rightarrow> PNone | Some l \<Rightarrow> PStr (loc_name l))),
      (''hashtags'', PStrList (caption_hashtags p)),
      (''mentioned_users'', PStrList (caption_mentions p)),
      (''is_video'', PBool (is_video p))]"

definition make_location :: "post \<Rightarrow> post_location \<Rightarrow> pydict" where
  "make_location p l =
     [(''name'', PStr (loc_name l)),
      (''id'', PInt (loc_id l)),
      (''lat'', opt_float (lat l)),
      (''lng'', opt_float (lng l)),
      (''post_url'', PStr (post_url (shortcode p)))]"

subsection \<open>The loop\<close>

text \<open>The local variables of \<open>analyze_posts\<close> that the loop updates.\<close>

record post_acc =
  acc_posts_data :: "pydict list"
  acc_locations :: "pydict list"
  acc_hashtags :: "(string \<times> nat) list"
  acc_mentions :: "(string \<times> nat) list"
  acc_post_times :: "datetime list"

definition init_acc :: post_acc where
  "init_acc = \<lparr>acc_posts_data = [], acc_locations = [], acc_hashtags = [],
               acc_mentions = [], acc_post_times = []\<rparr>"

text \<open>\<open>counts[tag] = counts.get(tag, 0) + 1\<close>\<close>

definition count_token :: "string \<Rightarrow> (string \<times> nat) list \<Rightarrow> (string \<times> nat) list" where
  "count_token tag counts =
     dict_set tag ((case dict_get counts tag of None \<Rightarrow> 0 | Some c \<Rightarrow> c) + 1) counts"

definition process_post :: "post \<Rightarrow> post_acc \<Rightarrow> post_acc" where
  "process_post p a =
     \<lparr>acc_posts_data = acc_posts_data a @ [make_post_data p],
      acc_locations =
        (case location p of
           None \<Rightarrow> acc_locations a
         | Some l \<Rightarrow> acc_locations a @ [make_location p l]),
      acc_hashtags = fold count_token (caption_hashtags p) (acc_hashtags a),
      acc_mentions = fold count_token (caption_mentions p) (acc_mentions a),
      acc_post_times = acc_post_times a @ [date_utc p]\<rparr>"

text \<open>
  \<open>for i, post in enumerate(posts): if i >= self.max_posts: break; ...\<close>
  \<open>enumerate\<close> asks the sequence for post \<open>i\<close> before the body compares \<open>i\<close> with
  \<open>max_posts\<close>. The second component of the result is the position of the iterator
  when the loop is left: the number of posts the sequence has handed over.
\<close>

function posts_loop ::
  "int \<Rightarrow> post lazy_seq \<Rightarrow> nat \<Rightarrow> post_acc \<Rightarrow> (exn + post_acc) \<times> nat" where
  "posts_loop max_posts posts i a =
     (case posts i of
        StopIteration \<Rightarrow> (Inr a, i)
      | Raised e \<Rightarrow> (Inl e, i)
      | Item p \<Rightarrow>
          if max_posts \<le> int i then (Inr a, Suc i)
          else posts_loop max_posts posts (Suc i) (process_post p a))"
  by pat_completeness auto
termination
  by (relation "measure (\<lambda>(max_posts, posts, i, a). nat (max_posts - int i))") auto

text \<open>
  \<open>sorted(counts.items(), key=lambda x: x[1], reverse=True)\<close>: a stable sort in
  descending order, items of equal count staying in first-seen order; CPython reverses
  the list, sorts it stably in ascending order and reverses the result.
\<close>

definition sorted_by_count_desc :: "(string \<times> nat) list \<Rightarrow> (string \<times> nat) list" where
  "sorted_by_count_desc items = rev (sort_key snd (rev items))"

record analysis_results =
  posts_analyzed :: nat
  posts_data :: "pydict list"
  locations :: "pydict list"
  top_hashtags :: "(string \<times> nat) list"
  top_mentions :: "(string \<times> nat) list"
  time_patterns :: time_patterns

text \<open>The dictionary returned by the \<open>except\<close> clause.\<close>

definition empty_results :: analysis_results where
  "empty_results =
     \<lparr>posts_analyzed = 0, posts_data = [], locations = [], top_hashtags = [],
      top_mentions = [], time_patterns = []\<rparr>"

text \<open>What follows the loop inside the \<open>try\<close> block.\<close>

definition finish_analysis :: "post_acc \<Rightarrow> exn + analysis_results" where
  "finish_analysis a =
     (case analyze_posting_patterns (acc_post_times a) of
        Inl e \<Rightarrow> Inl e
      | Inr tp \<Rightarrow>
          Inr \<lparr>posts_analyzed = length (acc_posts_data a),
               posts_data = acc_posts_data a,
               locations = acc_locations a,
               top_hashtags = take 20 (sorted_by_count_desc (acc_hashtags a)),
               top_mentions = take 20 (sorted_by_count_desc (acc_mentions a)),
               time_patterns = tp\<rparr>)"

text \<open>The \<open>try\<close> block, and the function with its \<open>except Exception\<close> clause.\<close>

definition analyze_posts_try :: "int \<Rightarrow> profile \<Rightarrow> (exn + analysis_results) \<times> nat" where
  "analyze_posts_try max_posts prof =
     (case posts_loop max_posts (get_posts prof) 0 init_acc of
        (Inl e, n) \<Rightarrow> (Inl e, n)
      | (Inr a, n) \<Rightarrow> (finish_analysis a, n))"

definition analyze_posts :: "int \<Rightarrow> profile \<Rightarrow> analysis_results \<times> nat" where
  "analyze_posts max_posts prof =
     (case analyze_posts_try max_posts prof of
        (Inl e, n) \<Rightarrow> (empty_results, n)
      | (Inr results, n) \<Rightarrow> (results, n))"

section \<open>ConnectionDiffer: \<open>analyze_connections\<close>\<close>

text \<open>
  \<open>for follower in profile.get_followers(): followers.append({...})\<close> reads the sequence
  to its end. On a sequence that never ends the loop does not return: the result
  \<open>None\<close>. The dictionary built for each follower has the keys \<open>username\<close>,
  \<open>full_name\<close> and \<open>is_verified\<close> of the provider's object, so the record \<open>user\<close>
  stands for both.
\<close>

partial_function (option) collect ::
  "'a lazy_seq \<Rightarrow> nat \<Rightarrow> 'a list \<Rightarrow> (exn + 'a list) option" where
  "collect s i acc =
     (case s i of
        StopIteration \<Rightarrow> Some (Inr acc)
      | Raised e \<Rightarrow> Some (Inl e)
      | Item x \<Rightarrow> collect s (Suc i) (acc @ [x]))"

text \<open>The values of the returned dictionary: a count, a list of handles, a list of users.\<close>

datatype cval =
    CInt nat
  | CNames "string list"
  | CUsers "user list"

type_synonym connections = "(string \<times> cval) list"

text \<open>The two list comprehensions.\<close>

definition not_following_back :: "user list \<Rightarrow> user list \<Rightarrow> string list" where
  "not_following_back followers following =
     map username
       (filter (\<lambda>u. username u \<notin> set (map username followers)) following)"

definition not_followed_back :: "user list \<Rightarrow> user list \<Rightarrow> string list" where
  "not_followed_back followers following =
     map username
       (filter (\<lambda>u. username u \<notin> set (map username following)) followers)"

text \<open>The dictionary returned on each of the three failure paths.\<close>

definition no_connections :: connections where
  "no_connections = [(''followers'', CUsers []), (''following'', CUsers [])]"

definition connections_data :: "user list \<Rightarrow> user list \<Rightarrow> connections" where
  "connections_data followers following =
     [(''followers_count'', CInt (length followers)),
      (''following_count'', CInt (length following)),
      (''not_following_back'', CNames (not_following_back followers following)),
      (''not_followed_back'', CNames (not_followed_back followers following)),
      (''followers'', CUsers followers),
      (''following'', CUsers following)]"

text \<open>
  \<open>is_logged_in\<close> is \<open>self.L.context.is_logged_in\<close>. The followees are read only after
  the followers have been read to their end.
\<close>

definition analyze_connections :: "bool \<Rightarrow> profile \<Rightarrow> connections option" where
  "analyze_connections is_logged_in prof =
     (if is_private prof then Some no_connections
      else if \<not> is_logged_in then Some no_connections
      else
        (case collect (get_followers prof) 0 [] of
           None \<Rightarrow> None
         | Some (Inl e) \<Rightarrow> Some no_connections
         | Some (Inr followers) \<Rightarrow>
             (case collect (get_followees prof) 0 [] of
                None \<Rightarrow> None
              | Some (Inl e) \<Rightarrow> Some no_connections
              | Some (Inr following) \<Rightarrow> Some (connections_data followers following))))"

section \<open>PresenceProber: \<open>search_external_references\<close>\<close>

subsection \<open>Strings and URLs\<close>

text \<open>
  \<open>str.capitalize\<close>, \<open>s.split(sep)[0]\<close> and \<open>s.replace(old, "")\<close> on ASCII strings.
\<close>

definition ascii_lowercase :: string where
  "ascii_lowercase = ''abcdefghijklmnopqrstuvwxyz''"

definition ascii_uppercase :: string where
  "ascii_uppercase = ''ABCDEFGHIJKLMNOPQRSTUVWXYZ''"

definition to_upper :: "char \<Rightarrow> char" where
  "to_upper c =
     (case dict_get (zip ascii_lowercase ascii_uppercase) c of None \<Rightarrow> c | Some u \<Rightarrow> u)"

definition to_lower :: "char \<Rightarrow> char" where
  "to_lower c =
     (case dict_get (zip ascii_uppercase ascii_lowercase) c of None \<Rightarrow> c | Some l \<Rightarrow> l)"

definition capitalize :: "string \<Rightarrow> string" where
  "capitalize s = (case s of [] \<Rightarrow> [] | c # cs \<Rightarrow> to_upper c # map to_lower cs)"

definition split_first :: "char \<Rightarrow> string \<Rightarrow> string" where
  "split_first sep s = takeWhile (\<lambda>c. c \<noteq> sep) s"

function remove_all :: "string \<Rightarrow> string \<Rightarrow> string" where
  "remove_all old [] = []"
| "remove_all old (c # s) =
     (if old \<noteq> [] \<and> take (length old) (c # s) = old
      then remove_all old (drop (length old) (c # s))
      else c # remove_all old s)"
  by pat_completeness auto
termination
  by (relation "measure (\<lambda>(old, s). length s)") auto

text \<open>
  \<open>urlparse(url).netloc\<close>, after \<open>urllib.parse.urlsplit\<close>: a leading scheme (a letter,
  then letters, digits, \<open>+\<close>, \<open>-\<close>, \<open>.\<close>, up to the first colon) is split off; if
  the rest starts with \<open>//\<close>, the netloc runs to the first \<open>/\<close>, \<open>?\<close> or \<open>#\<close>; a
  netloc with one square bracket and not the other raises \<open>ValueError\<close>. Left out:
  the removal of leading blanks and of tabs and line ends, and the checks of the text
  inside brackets and of non-ASCII hosts. None of them concerns a URL that starts with
  \<open>https://\<close>, an ASCII host name and \<open>/\<close>, as all the probed URLs do.
\<close>

definition scheme_chars :: string where
  "scheme_chars = ascii_lowercase @ ascii_uppercase @ ''0123456789+-.''"

definition split_scheme :: "string \<Rightarrow> string" where
  "split_scheme u =
     (let head = takeWhile (\<lambda>c. c \<noteq> CHR '':'') u in
      if head \<noteq> [] \<and> length head < length u \<and>
         hd u \<in> set (ascii_lowercase @ ascii_uppercase) \<and>
         list_all (\<lambda>c. c \<in> set scheme_chars) head
      then drop (Suc (length head)) u
      else u)"

definition urlparse_netloc :: "string \<Rightarrow> exn + string" where
  "urlparse_netloc u =
     (let rest = split_scheme u in
      if take 2 rest = ''//'' then
        (let netloc = takeWhile (\<lambda>c. c \<notin> set ''/?#'') (drop 2 rest) in
         if (CHR ''['' \<in> set netloc \<and> CHR '']'' \<notin> set netloc) \<or>
            (CHR '']'' \<in> set netloc \<and> CHR ''['' \<notin> set netloc)
         then Inl (ValueError ''Invalid IPv6 URL'')
         else Inr netloc)
      else Inr [])"

text \<open>
  \<open>urlparse(url).netloc.replace("www.", "")\<close> followed by
  \<open>.split(".")[0].capitalize()\<close>: the platform label.
\<close>

definition platform_label :: "string \<Rightarrow> exn + string" where
  "platform_label u =
     (case urlparse_netloc u of
        Inl e \<Rightarrow> Inl e
      | Inr netloc \<Rightarrow> Inr (capitalize (split_first CHR ''.'' (remove_all ''www.'' netloc))))"

subsection \<open>One check\<close>

text \<open>
  The network is what \<open>requests.get(url, headers=headers, timeout=self.timeout)\<close>
  answers for a URL: the status code of the response received, or the exception raised
  (a timeout, a DNS or connection failure, a TLS failure, an invalid URL).
\<close>

type_synonym network = "string \<Rightarrow> exn + int"

text \<open>The \<open>try\<close> block of \<open>check_url\<close>, and \<open>check_url\<close> with its \<open>except\<close> clause.\<close>

definition check_url_try :: "network \<Rightarrow> string \<Rightarrow> exn + pydict" where
  "check_url_try net u =
     (case net u of
        Inl e \<Rightarrow> Inl e
      | Inr status_code \<Rightarrow>
          (case platform_label u of
             Inl e \<Rightarrow> Inl e
           | Inr label \<Rightarrow>
               if status_code = 200
               then Inr [(''platform'', PStr label), (''url'', PStr u),
                         (''status'', PStr ''Found''), (''response_code'', PInt status_code)]
               else Inr [(''platform'', PStr label), (''url'', PStr u),
                         (''status'', PStr ''Not found''),
                         (''response_code'', PInt status_code)]))"

definition check_url :: "network \<Rightarrow> string \<Rightarrow> exn + pydict" where
  "check_url net u =
     (case check_url_try net u of
        Inr result \<Rightarrow> Inr result
      | Inl e \<Rightarrow>
          (case platform_label u of
             Inl e' \<Rightarrow> Inl e'
           | Inr label \<Rightarrow>
               Inr [(''platform'', PStr label), (''url'', PStr u),
                    (''status'', PStr ''Error''), (''response_code'', PStr (str_of_exn e))]))"

subsection \<open>The worker pool\<close>

text \<open>
  \<open>ThreadPoolExecutor.map(fn, args)\<close> submits one task per argument and keeps their
  futures in the order of the arguments. The tasks complete in some order, given here as
  the list of their indices; a completed task has stored its outcome in its own future.
  \<open>list(...)\<close> then takes the outcomes in the order of the futures, raising the first
  exception it meets, and leaving the \<open>with\<close> block waits for every task: the call
  returns only if every task completes (\<open>None\<close> otherwise).
\<close>

fun run_tasks :: "('a \<Rightarrow> 'b) \<Rightarrow> 'a list \<Rightarrow> nat list \<Rightarrow> 'b option list \<Rightarrow> 'b option list" where
  "run_tasks fn args [] futures = futures"
| "run_tasks fn args (i # order) futures =
     run_tasks fn args order
       (if i < length args then futures[i := Some (fn (args ! i))] else futures)"

fun results_in_order :: "(exn + 'b) list \<Rightarrow> exn + 'b list" where
  "results_in_order [] = Inr []"
| "results_in_order (Inl e # rest) = Inl e"
| "results_in_order (Inr r # rest) =
     (case results_in_order rest of Inl e \<Rightarrow> Inl e | Inr rs \<Rightarrow> Inr (r # rs))"

definition executor_map ::
  "nat list \<Rightarrow> ('a \<Rightarrow> exn + 'b) \<Rightarrow> 'a list \<Rightarrow> (exn + 'b list) option" where
  "executor_map order fn args =
     (case those (run_tasks fn args order (replicate (length args) None)) of
        None \<Rightarrow> None
      | Some outcomes \<Rightarrow> Some (results_in_order outcomes))"

definition sites_to_check :: "string \<Rightarrow> string list" where
  "sites_to_check target =
     [''https://twitter.com/'' @ target,
      ''https://www.facebook.com/'' @ target,
      ''https://www.tiktok.com/@'' @ target,
      ''https://www.reddit.com/user/'' @ target,
      ''https://www.linkedin.com/in/'' @ target,
      ''https://github.com/'' @ target,
      ''https://www.youtube.com/user/'' @ target]"

definition search_external_references ::
  "network \<Rightarrow> nat list \<Rightarrow> string \<Rightarrow> (exn + pydict list) option" where
  "search_external_references net order target =
     executor_map order (check_url net) (sites_to_check target)"

section \<open>ResultExporter: the \<open>csv\<close> branch of \<open>export_results\<close>\<close>

text \<open>
  A CSV file is the list of the rows written to it, a row the list of its cells before
  they are turned into text. The files written are kept in the order of their creation.
\<close>

type_synonym csv_rows = "pyval list list"

type_synonym files = "(string \<times> csv_rows) list"

text \<open>
  \<open>csv.DictWriter(f, fieldnames=keys)\<close> is created with the defaults of the standard
  library, \<open>restval=""\<close> and \<open>extrasaction="raise"\<close>. Its \<open>_dict_to_list\<close> raises
  \<open>ValueError\<close> when the row has a key that is no field name (the message lists the
  keys, which is left out here), and fills a field the row does not have with
  \<open>restval\<close>.
\<close>

definition dict_to_list :: "string list \<Rightarrow> pydict \<Rightarrow> exn + pyval list" where
  "dict_to_list fieldnames rowdict =
     (if filter (\<lambda>k. k \<notin> set fieldnames) (dict_keys rowdict) \<noteq> []
      then Inl (ValueError ''dict contains fields not in fieldnames'')
      else Inr (map (\<lambda>key. case dict_get rowdict key of None \<Rightarrow> PStr [] | Some v \<Rightarrow> v)
                  fieldnames))"

text \<open>
  \<open>writer.writerows(rowdicts)\<close> writes the rows one after the other; the rows before
  the one that raises are in the file.
\<close>

fun writerows :: "string list \<Rightarrow> pydict list \<Rightarrow> csv_rows \<Rightarrow> csv_rows \<times> exn option" where
  "writerows fieldnames [] rows = (rows, None)"
| "writerows fieldnames (rowdict # rest) rows =
     (case dict_to_list fieldnames rowdict of
        Inl e \<Rightarrow> (rows, Some e)
      | Inr row \<Rightarrow> writerows fieldnames rest (rows @ [row]))"

text \<open>
  The body of the \<open>with\<close> block for the posts and for the locations:
  \<open>keys = records[0].keys()\<close>, \<open>writeheader()\<close>, \<open>writerows(records)\<close>.
\<close>

definition write_dicts :: "pydict list \<Rightarrow> csv_rows \<times> exn option" where
  "write_dicts records =
     (case records of
        [] \<Rightarrow> ([], Some IndexError)
      | first # rest \<Rightarrow>
          (let keys = dict_keys first in writerows keys records [map PStr keys]))"

text \<open>
  The branch \<open>elif self.output_format == "csv"\<close>. \<open>output_file\<close> is the path prefix made
  of the results directory, the target and the time stamp. Nothing in
  \<open>export_results\<close> catches an exception: the second component is the exception that
  leaves the function, if any.
\<close>

definition export_results_csv ::
  "string \<Rightarrow> pydict \<Rightarrow> analysis_results \<Rightarrow> files \<times> exn option" where
  "export_results_csv output_file profile_data posts_analysis =
     (let profile_file =
            (output_file @ ''_profile.csv'',
             [map PStr (dict_keys profile_data), map snd profile_data]);
          after_posts =
            (if posts_data posts_analysis \<noteq> []
             then (case write_dicts (posts_data posts_analysis) of
                     (rows, raised) \<Rightarrow>
                       ([profile_file, (output_file @ ''_posts.csv'', rows)], raised))
             else ([profile_file], None))
      in case after_posts of
           (written, Some e) \<Rightarrow> (written, Some e)
         | (written, None) \<Rightarrow>
             (if locations posts_analysis \<noteq> []
              then (case write_dicts (locations posts_analysis) of
                      (rows, raised) \<Rightarrow>
                        (written @ [(output_file @ ''_locations.csv'', rows)], raised))
              else (written, None)))"

section \<open>Notions used to state the properties\<close>

subsection \<open>Posting patterns\<close>

text \<open>
  The number of timestamps falling on weekday \<open>i\<close> (Monday is \<open>0\<close>) and in hour \<open>h\<close>,
  and the two histograms in their canonical bucket order.
\<close>

definition day_count :: "datetime list \<Rightarrow> nat \<Rightarrow> nat" where
  "day_count post_times i = length (filter (\<lambda>t. weekday t = i) post_times)"

definition hour_count :: "datetime list \<Rightarrow> nat \<Rightarrow> nat" where
  "hour_count post_times h = length (filter (\<lambda>t. hour t = h) post_times)"

definition day_hist :: "datetime list \<Rightarrow> (string \<times> nat) list" where
  "day_hist post_times = map (\<lambda>i. (days_of_week ! i, day_count post_times i)) [0..<7]"

definition hour_hist :: "datetime list \<Rightarrow> (nat \<times> nat) list" where
  "hour_hist post_times = map (\<lambda>h. (h, hour_count post_times h)) [0..<24]"

text \<open>Reading a key of the summary; \<open>None\<close> when the key is absent or the call raised.\<close>

definition result_get :: "exn + time_patterns \<Rightarrow> string \<Rightarrow> tval option" where
  "result_get r k = (case r of Inl e \<Rightarrow> None | Inr tp \<Rightarrow> dict_get tp k)"

text \<open>
  The instant of a datetime in microseconds since 0001-01-01 00:00:00 orders datetimes
  chronologically. \<open>spec_days_between\<close> and \<open>spec_frequency\<close> follow the
  specification's words: the whole days between the chronologically first and last
  timestamp, whatever the order of the input, and the count divided by that span.
\<close>

definition instant :: "datetime \<Rightarrow> int" where
  "instant t = (int (toordinal t) * 86400 + seconds_of_day t) * 1000000 + int (microsecond t)"

definition spec_days_between :: "datetime list \<Rightarrow> int" where
  "spec_days_between ts =
     (Max (instant ` set ts) - Min (instant ` set ts)) div 86400000000"

definition spec_frequency :: "datetime list \<Rightarrow> tval" where
  "spec_frequency ts =
     (if 1 < length ts
      then TFloat (of_nat (length ts) / of_int (max (spec_days_between ts) 1))
      else TInt 0)"

subsection \<open>Lazy sequences and the posts consumed\<close>

text \<open>
  \<open>yields s xs fin\<close>: the sequence \<open>s\<close> hands over exactly the items \<open>xs\<close> and then
  answers \<open>fin\<close>. \<open>seq_of xs fin\<close> is the sequence that does so and answers \<open>fin\<close> ever
  after.
\<close>

definition yields :: "'a lazy_seq \<Rightarrow> 'a list \<Rightarrow> 'a step \<Rightarrow> bool" where
  "yields s xs fin = (map s [0..<length xs] = map Item xs \<and> s (length xs) = fin)"

definition seq_of :: "'a list \<Rightarrow> 'a step \<Rightarrow> 'a lazy_seq" where
  "seq_of xs fin = (\<lambda>i. if i < length xs then Item (xs ! i) else fin)"

text \<open>
  The bundle that reflects exactly the posts \<open>ps\<close>: what the \<open>try\<close> block returns once
  the loop has processed \<open>ps\<close> and nothing else.
\<close>

definition prefix_bundle :: "post list \<Rightarrow> exn + analysis_results" where
  "prefix_bundle ps = finish_analysis (fold process_post ps init_acc)"

subsection \<open>Connections\<close>

text \<open>Reading a key of the connection dictionary; \<open>None\<close> when the key is absent.\<close>

definition conn_get :: "connections option \<Rightarrow> string \<Rightarrow> cval option" where
  "conn_get r k = (case r of None \<Rightarrow> None | Some d \<Rightarrow> dict_get d k)"

subsection \<open>Presence probing\<close>

text \<open>The labels of the seven probed platforms, in the order of the sites.\<close>

definition platform_names :: "string list" where
  "platform_names =
     [''Twitter'', ''Facebook'', ''Tiktok'', ''Reddit'', ''Linkedin'', ''Github'', ''Youtube'']"

subsection \<open>CSV export\<close>

text \<open>
  The row written for a record under the field names \<open>keys\<close>, a missing field filled
  with the empty string; and whether a record has a key that is no field name.
\<close>

definition fill_row :: "string list \<Rightarrow> pydict \<Rightarrow> pyval list" where
  "fill_row keys r = map (\<lambda>key. case dict_get r key of None \<Rightarrow> PStr [] | Some v \<Rightarrow> v) keys"

definition has_extra_field :: "string list \<Rightarrow> pydict \<Rightarrow> bool" where
  "has_extra_field keys r = (\<not> set (dict_keys r) \<subseteq> set keys)"

text \<open>A post-analysis bundle whose post records are the given ones.\<close>

definition bundle_of_posts :: "pydict list \<Rightarrow> analysis_results" where
  "bundle_of_posts records =
     empty_results\<lparr>posts_analyzed := length records, posts_data := records\<rparr>"

subsection \<open>Example inputs\<close>

text \<open>1 January 2024 was a Monday.\<close>

definition jan1 :: datetime where
  "jan1 = \<lparr>year = 2024, month = 1, day = 1, hour = 0, minute = 0, second = 0, microsecond = 0\<rparr>"

definition jan11 :: datetime where
  "jan11 = \<lparr>year = 2024, month = 1, day = 11, hour = 0, minute = 0, second = 0, microsecond = 0\<rparr>"

definition wed14 :: datetime where
  "wed14 = \<lparr>year = 2024, month = 1, day = 3, hour = 14, minute = 0, second = 0, microsecond = 0\<rparr>"

definition mon9 :: datetime where
  "mon9 = \<lparr>year = 2024, month = 1, day = 1, hour = 9, minute = 0, second = 0, microsecond = 0\<rparr>"

definition example_post :: "string \<Rightarrow> datetime \<Rightarrow> post" where
  "example_post sc t =
     \<lparr>shortcode = sc, date_utc = t, likes = 0, comments = 0, caption = None,
      location = None, caption_hashtags = [], caption_mentions = [], is_video = False\<rparr>"

definition example_profile :: "post lazy_seq \<Rightarrow> profile" where
  "example_profile s =
     \<lparr>is_private = False, get_posts = s, get_followers = (\<lambda>i. StopIteration),
      get_followees = (\<lambda>i. StopIteration)\<rparr>"

definition post_a :: post where
  "post_a = example_post ''a'' jan11"

definition post_b :: post where
  "post_b = example_post ''b'' jan1"

text \<open>
  A profile whose post sequence hands over one post and then raises, one with exactly
  two posts, and one whose sequence never ends.
\<close>

definition raising_after_one :: profile where
  "raising_after_one =
     example_profile (seq_of [post_a] (Raised (ProviderError ''connection lost'')))"

definition two_posts :: profile where
  "two_posts = example_profile (seq_of [post_a, post_b] StopIteration)"

definition endless :: profile where
  "endless = example_profile (\<lambda>i. Item post_a)"

definition alice :: user where
  "alice = \<lparr>username = ''alice'', full_name = ''Alice A'', is_verified = False\<rparr>"

definition bob :: user where
  "bob = \<lparr>username = ''bob'', full_name = ''Bob B'', is_verified = True\<rparr>"

definition carol :: user where
  "carol = \<lparr>username = ''carol'', full_name = ''Carol C'', is_verified = False\<rparr>"

definition conn_profile :: "bool \<Rightarrow> user lazy_seq \<Rightarrow> user lazy_seq \<Rightarrow> profile" where
  "conn_profile private fs gs =
     \<lparr>is_private = private, get_posts = (\<lambda>i. StopIteration), get_followers = fs,
      get_followees = gs\<rparr>"

text \<open>A network where one site answers 200, one 404, and every other request times out.\<close>

definition example_net :: network where
  "example_net u =
     (if u = ''https://twitter.com/alice'' then Inr 200
      else if u = ''https://github.com/alice'' then Inr 404
      else Inl (RequestError ''timed out''))"

text \<open>
  Two records where the later one has a field more than the first, and two where it has
  a field less.
\<close>

definition records_extra :: "pydict list" where
  "records_extra = [[(''a'', PInt 1)], [(''a'', PInt 2), (''b'', PInt 3)]]"

definition records_missing :: "pydict list" where
  "records_missing = [[(''a'', PInt 1), (''b'', PInt 2)], [(''a'', PInt 3)]]"

section \<open>Properties of the pattern analyzer\<close>

subsection \<open>Counting and the first maximum\<close>

lemma dict_get_tabulate:
  "dict_get (map (\<lambda>x. (x, f x)) ks) k = (if k \<in> set ks then Some (f k) else None)"
  by (induction ks) auto

lemma dict_set_tabulate:
  "distinct ks \<Longrightarrow> k \<in> set ks \<Longrightarrow>
   dict_set k v (map (\<lambda>x. (x, f x)) ks) = map (\<lambda>x. (x, (f(k := v)) x)) ks"
  by (induction ks) auto

lemma dict_incr_tabulate:
  "distinct ks \<Longrightarrow> k \<in> set ks \<Longrightarrow>
   dict_incr k (map (\<lambda>x. (x, f x)) ks) = Inr (map (\<lambda>x. (x, (f(k := f k + 1)) x)) ks)"
  by (simp add: dict_incr_def dict_get_tabulate dict_set_tabulate)

lemma weekday_less: "weekday t < 7"
  by (simp add: weekday_def)

lemma distinct_days_of_week: "distinct days_of_week"
  by (simp add: days_of_week_def)

lemma length_days_of_week: "length days_of_week = 7"
  by (simp add: days_of_week_def)

lemma count_loop_tabulate:
  "\<forall>t\<in>set ts. hour t < 24 \<Longrightarrow>
   count_loop ts (map (\<lambda>d. (d, f d)) days_of_week) (map (\<lambda>h. (h, g h)) [0..<24]) =
     Inr (map (\<lambda>d. (d, f d + length (filter (\<lambda>t. days_of_week ! weekday t = d) ts))) days_of_week,
          map (\<lambda>h. (h, g h + length (filter (\<lambda>t. hour t = h) ts))) [0..<24])"
proof (induction ts arbitrary: f g)
  case Nil
  then show ?case by simp
next
  case (Cons t ts)
  let ?n = "days_of_week ! weekday t"
  have n: "?n \<in> set days_of_week"
    by (simp add: weekday_less length_days_of_week)
  have h: "hour t \<in> set [0..<24]" using Cons.prems by simp
  have g1: "getitem days_of_week (weekday t) = Inr ?n"
    by (simp add: getitem_def weekday_less length_days_of_week)
  have d1: "dict_incr ?n (map (\<lambda>d. (d, f d)) days_of_week) =
      Inr (map (\<lambda>d. (d, (f(?n := f ?n + 1)) d)) days_of_week)"
    using dict_incr_tabulate [OF distinct_days_of_week n] .
  have h1: "dict_incr (hour t) (map (\<lambda>h. (h, g h)) [0..<24]) =
      Inr (map (\<lambda>h. (h, (g(hour t := g (hour t) + 1)) h)) [0..<24])"
    using dict_incr_tabulate [OF _ h] by simp
  have rest: "\<forall>t\<in>set ts. hour t < 24" using Cons.prems by simp
  show ?case
    unfolding count_loop.simps g1 d1 h1 sum.case Cons.IH [OF rest]
    by (auto)
qed

lemma py_max_from_first:
  "py_max_from f b xs = r \<Longrightarrow>
   (r = b \<and> (\<forall>x\<in>set xs. f x \<le> f b)) \<or>
   (\<exists>i<length xs. r = xs ! i \<and> f b < f r \<and> (\<forall>j<i. f (xs ! j) < f r) \<and>
       (\<forall>x\<in>set xs. f x \<le> f r))"
proof (induction xs arbitrary: b)
  case Nil
  then show ?case by simp
next
  case (Cons x xs)
  show ?case
  proof (cases "f b < f x")
    case True
    with Cons.prems have "py_max_from f x xs = r" by simp
    from Cons.IH [OF this] show ?thesis
    proof
      assume a: "r = x \<and> (\<forall>y\<in>set xs. f y \<le> f x)"
      have "0 < length (x # xs) \<and> r = (x # xs) ! 0 \<and> f b < f r \<and>
            (\<forall>j<0. f ((x # xs) ! j) < f r) \<and> (\<forall>y\<in>set (x # xs). f y \<le> f r)"
        using a True by auto
      then show ?thesis by blast
    next
      assume "\<exists>i<length xs. r = xs ! i \<and> f x < f r \<and> (\<forall>j<i. f (xs ! j) < f r) \<and>
          (\<forall>y\<in>set xs. f y \<le> f r)"
      then obtain i where i: "i < length xs" "r = xs ! i" "f x < f r"
          "\<forall>j<i. f (xs ! j) < f r" "\<forall>y\<in>set xs. f y \<le> f r" by blast
      have "Suc i < length (x # xs) \<and> r = (x # xs) ! Suc i \<and> f b < f r \<and>
            (\<forall>j<Suc i. f ((x # xs) ! j) < f r) \<and> (\<forall>y\<in>set (x # xs). f y \<le> f r)"
        using i True by (auto simp: less_Suc_eq_0_disj)
      then show ?thesis by blast
    qed
  next
    case False
    with Cons.prems have "py_max_from f b xs = r" by simp
    from Cons.IH [OF this] show ?thesis
    proof
      assume a: "r = b \<and> (\<forall>y\<in>set xs. f y \<le> f b)"
      then show ?thesis using False by auto
    next
      assume "\<exists>i<length xs. r = xs ! i \<and> f b < f r \<and> (\<forall>j<i. f (xs ! j) < f r) \<and>
          (\<forall>y\<in>set xs. f y \<le> f r)"
      then obtain i where i: "i < length xs" "r = xs ! i" "f b < f r"
          "\<forall>j<i. f (xs ! j) < f r" "\<forall>y\<in>set xs. f y \<le> f r" by blast
      have "Suc i < length (x # xs) \<and> r = (x # xs) ! Suc i \<and> f b < f r \<and>
            (\<forall>j<Suc i. f ((x # xs) ! j) < f r) \<and> (\<forall>y\<in>set (x # xs). f y \<le> f r)"
        using i False by (auto simp: less_Suc_eq_0_disj)
      then show ?thesis by blast
    qed
  qed
qed

lemma py_max_first:
  assumes "xs \<noteq> []"
  shows "\<exists>i<length xs. py_max f xs = Inr (xs ! i) \<and>
           (\<forall>j<length xs. f (xs ! j) \<le> f (xs ! i)) \<and> (\<forall>j<i. f (xs ! j) < f (xs ! i))"
proof -
  from assms obtain x rest where xs: "xs = x # rest" by (cases xs) auto
  define r where "r = py_max_from f x rest"
  have pm: "py_max f xs = Inr r" by (simp add: py_max_def xs r_def)
  from py_max_from_first [of f x rest r] r_def
  consider (a) "r = x" "\<forall>y\<in>set rest. f y \<le> f x"
    | (b) i where "i < length rest" "r = rest ! i" "f x < f r" "\<forall>j<i. f (rest ! j) < f r"
        "\<forall>y\<in>set rest. f y \<le> f r" by blast
  then show ?thesis
  proof cases
    case a
    have "0 < length xs \<and> py_max f xs = Inr (xs ! 0) \<and>
           (\<forall>j<length xs. f (xs ! j) \<le> f (xs ! 0)) \<and> (\<forall>j<0. f (xs ! j) < f (xs ! 0))"
      using a pm xs by (auto simp: nth_Cons')
    then show ?thesis by blast
  next
    case b
    have "Suc i < length xs \<and> py_max f xs = Inr (xs ! Suc i) \<and>
           (\<forall>j<length xs. f (xs ! j) \<le> f (xs ! Suc i)) \<and> (\<forall>j<Suc i. f (xs ! j) < f (xs ! Suc i))"
      using b pm xs by (auto simp: nth_Cons' less_Suc_eq_0_disj)
    then show ?thesis by blast
  qed
qed

lemma day_name_eq_iff:
  "i < 7 \<Longrightarrow> days_of_week ! weekday t = days_of_week ! i \<longleftrightarrow> weekday t = i"
  using nth_eq_iff_index_eq [OF distinct_days_of_week, of "weekday t" i]
  by (simp add: weekday_less length_days_of_week)

lemma day_table_eq:
  "map (\<lambda>d. (d, length (filter (\<lambda>t. days_of_week ! weekday t = d) ts))) days_of_week =
   day_hist ts"
proof -
  have "days_of_week = map (\<lambda>i. days_of_week ! i) [0..<7]"
    using map_nth [of days_of_week] by (simp add: length_days_of_week)
  then have "map (\<lambda>d. (d, length (filter (\<lambda>t. days_of_week ! weekday t = d) ts))) days_of_week =
      map (\<lambda>d. (d, length (filter (\<lambda>t. days_of_week ! weekday t = d) ts)))
        (map (\<lambda>i. days_of_week ! i) [0..<7])" by simp
  also have "\<dots> = map (\<lambda>i. (days_of_week ! i, day_count ts i)) [0..<7]"
    unfolding map_map by (rule map_cong) (simp_all add: day_count_def day_name_eq_iff)
  finally show ?thesis by (simp add: day_hist_def)
qed

lemma count_loop_initial:
  assumes "\<forall>t\<in>set ts. valid_datetime t"
  shows "count_loop ts (map (\<lambda>d. (d, 0)) days_of_week) (map (\<lambda>h. (h, 0)) [0..<24]) =
           Inr (day_hist ts, hour_hist ts)"
proof -
  have "\<forall>t\<in>set ts. hour t < 24" using assms by (simp add: valid_datetime_def)
  from count_loop_tabulate [OF this, of "\<lambda>_. 0" "\<lambda>_. 0"] show ?thesis
    by (simp add: day_table_eq hour_hist_def hour_count_def)
qed

lemma py_max_day_hist:
  "\<exists>i<7. py_max snd (day_hist ts) = Inr (days_of_week ! i, day_count ts i) \<and>
      (\<forall>j<7. day_count ts j \<le> day_count ts i) \<and> (\<forall>j<i. day_count ts j < day_count ts i)"
proof -
  have ne: "day_hist ts \<noteq> []" by (simp add: day_hist_def)
  have len: "length (day_hist ts) = 7" by (simp add: day_hist_def)
  have nth: "\<And>j. j < 7 \<Longrightarrow> day_hist ts ! j = (days_of_week ! j, day_count ts j)"
    by (simp add: day_hist_def)
  from py_max_first [OF ne, of snd] obtain i where i: "i < 7"
    "py_max snd (day_hist ts) = Inr (day_hist ts ! i)"
    "\<forall>j<7. snd (day_hist ts ! j) \<le> snd (day_hist ts ! i)"
    "\<forall>j<i. snd (day_hist ts ! j) < snd (day_hist ts ! i)"
    unfolding len by blast
  have "py_max snd (day_hist ts) = Inr (days_of_week ! i, day_count ts i) \<and>
      (\<forall>j<7. day_count ts j \<le> day_count ts i) \<and> (\<forall>j<i. day_count ts j < day_count ts i)"
    using i nth by auto
  with i(1) show ?thesis by blast
qed

lemma py_max_hour_hist:
  "\<exists>h<24. py_max snd (hour_hist ts) = Inr (h, hour_count ts h) \<and>
      (\<forall>j<24. hour_count ts j \<le> hour_count ts h) \<and> (\<forall>j<h. hour_count ts j < hour_count ts h)"
proof -
  have ne: "hour_hist ts \<noteq> []" by (simp add: hour_hist_def)
  have len: "length (hour_hist ts) = 24" by (simp add: hour_hist_def)
  have nth: "\<And>j. j < 24 \<Longrightarrow> hour_hist ts ! j = (j, hour_count ts j)"
    by (simp add: hour_hist_def del: upt_Suc)
  from py_max_first [OF ne, of snd] obtain h where h: "h < 24"
    "py_max snd (hour_hist ts) = Inr (hour_hist ts ! h)"
    "\<forall>j<24. snd (hour_hist ts ! j) \<le> snd (hour_hist ts ! h)"
    "\<forall>j<h. snd (hour_hist ts ! j) < snd (hour_hist ts ! h)"
    unfolding len by blast
  have "py_max snd (hour_hist ts) = Inr (h, hour_count ts h) \<and>
      (\<forall>j<24. hour_count ts j \<le> hour_count ts h) \<and> (\<forall>j<h. hour_count ts j < hour_count ts h)"
    using h nth by auto
  with h(1) show ?thesis by blast
qed

lemma analyze_posting_patterns_shape:
  assumes "post_times \<noteq> []" and "\<forall>t\<in>set post_times. valid_datetime t"
  shows "\<exists>i h. i < 7 \<and> h < 24 \<and>
      analyze_posting_patterns post_times =
        Inr [(''most_active_day'', TStr (days_of_week ! i)),
             (''day_activity'', TDayCounts (day_hist post_times)),
             (''most_active_hour'', TInt (int h)),
             (''hour_activity'', THourCounts (hour_hist post_times)),
             (''post_frequency_days'', post_frequency post_times)] \<and>
      (\<forall>j<7. day_count post_times j \<le> day_count post_times i) \<and>
      (\<forall>j<i. day_count post_times j < day_count post_times i) \<and>
      (\<forall>j<24. hour_count post_times j \<le> hour_count post_times h) \<and>
      (\<forall>j<h. hour_count post_times j < hour_count post_times h)"
proof -
  from py_max_day_hist [of post_times] obtain i where i: "i < 7"
    "py_max snd (day_hist post_times) = Inr (days_of_week ! i, day_count post_times i)"
    "\<forall>j<7. day_count post_times j \<le> day_count post_times i"
    "\<forall>j<i. day_count post_times j < day_count post_times i" by blast
  from py_max_hour_hist [of post_times] obtain h where h: "h < 24"
    "py_max snd (hour_hist post_times) = Inr (h, hour_count post_times h)"
    "\<forall>j<24. hour_count post_times j \<le> hour_count post_times h"
    "\<forall>j<h. hour_count post_times j < hour_count post_times h" by blast
  have "analyze_posting_patterns post_times =
        Inr [(''most_active_day'', TStr (days_of_week ! i)),
             (''day_activity'', TDayCounts (day_hist post_times)),
             (''most_active_hour'', TInt (int h)),
             (''hour_activity'', THourCounts (hour_hist post_times)),
             (''post_frequency_days'', post_frequency post_times)]"
    using assms(1) by (simp add: analyze_posting_patterns_def count_loop_initial [OF assms(2)] i(2) h(2))
  with i h show ?thesis by blast
qed

subsection \<open>Evaluation on concrete datetimes\<close>

lemmas datetime_eval = weekday_def toordinal_def days_before_year_def days_before_month_def
  days_before_month_table_def is_leap_def sub_days_def timedelta_days_def seconds_of_day_def
  valid_datetime_def days_in_month_def

lemmas dict_eval = dict_incr_def getitem_def days_of_week_def py_max_def result_get_def
  post_frequency_def analyze_posting_patterns_def upt_rec

lemma sub_days_instant: "sub_days a b = (instant a - instant b) div 86400000000"
  by (simp add: sub_days_def timedelta_days_def instant_def algebra_simps)

lemma hd_last_extremes:
  assumes "ts \<noteq> []"
    and "\<forall>t\<in>set ts. instant (last ts) \<le> instant t \<and> instant t \<le> instant (hd ts)"
  shows "spec_days_between ts = sub_days (hd ts) (last ts)"
proof -
  have fin: "finite (instant ` set ts)" by simp
  have hd_in: "instant (hd ts) \<in> instant ` set ts" using assms(1) by simp
  have last_in: "instant (last ts) \<in> instant ` set ts" using assms(1) by simp
  have mx: "Max (instant ` set ts) = instant (hd ts)"
    using assms(2) hd_in by (intro Max_eqI) auto
  have mn: "Min (instant ` set ts) = instant (last ts)"
    using assms(2) last_in by (intro Min_eqI) auto
  show ?thesis by (simp add: spec_days_between_def mx mn sub_days_instant)
qed

lemma frequency_entry:
  assumes "post_times \<noteq> []" and "\<forall>t\<in>set post_times. valid_datetime t"
  shows "result_get (analyze_posting_patterns post_times) ''post_frequency_days'' =
           Some (post_frequency post_times)"
proof -
  from analyze_posting_patterns_shape [OF assms] obtain i h where
    "analyze_posting_patterns post_times =
        Inr [(''most_active_day'', TStr (days_of_week ! i)),
             (''day_activity'', TDayCounts (day_hist post_times)),
             (''most_active_hour'', TInt (int h)),
             (''hour_activity'', THourCounts (hour_hist post_times)),
             (''post_frequency_days'', post_frequency post_times)]" by blast
  then show ?thesis by (simp add: result_get_def)
qed

lemma instant_jan1: "instant jan1 = 63839750400000000"
  by (simp add: instant_def jan1_def datetime_eval)

lemma instant_jan11: "instant jan11 = 63840614400000000"
  by (simp add: instant_def jan11_def datetime_eval)

lemma spec_frequency_example: "spec_frequency [jan1, jan11] = TFloat (1 / 5)"
  by (simp add: spec_frequency_def spec_days_between_def instant_jan1 instant_jan11)

lemma oldest_first_eval:
  "result_get (analyze_posting_patterns [jan1, jan11]) ''post_frequency_days'' = Some (TFloat 2)"
  by (simp add: jan1_def jan11_def datetime_eval dict_eval)

lemma newest_first_eval:
  "result_get (analyze_posting_patterns [jan11, jan1]) ''post_frequency_days'' = Some (TFloat (1 / 5))"
  by (simp add: jan1_def jan11_def datetime_eval dict_eval)

lemma tie_example_eval:
  "result_get (analyze_posting_patterns [wed14, mon9]) ''most_active_day'' = Some (TStr ''Monday'') \<and>
   result_get (analyze_posting_patterns [wed14, mon9]) ''most_active_hour'' = Some (TInt 9)"
  by (simp add: wed14_def mon9_def datetime_eval dict_eval)

subsection \<open>The empty input\<close>

text \<open>
  Claim C2, as the code has it: for the empty sequence of timestamps the analyzer takes
  its first branch and returns the empty dictionary. It does not fail and divides
  nothing, and the summary has no key at all: no histogram, no most-active day or hour
  and no frequency.
\<close>

theorem empty_input_empty_summary:
  "analyze_posting_patterns [] = Inr []"
  by (simp add: analyze_posting_patterns_def)

text \<open>
  Against claim C2 as stated: on the empty input the keys \<open>day_activity\<close>,
  \<open>hour_activity\<close> and \<open>post_frequency_days\<close> are absent, so there is no
  all-zero histogram with 7 or 24 buckets and no frequency \<open>0\<close>.
\<close>

theorem empty_input_no_histograms:
  "result_get (analyze_posting_patterns []) ''day_activity'' = None \<and>
   result_get (analyze_posting_patterns []) ''day_activity'' \<noteq>
     Some (TDayCounts (map (\<lambda>d. (d, 0)) days_of_week)) \<and>
   result_get (analyze_posting_patterns []) ''hour_activity'' = None \<and>
   result_get (analyze_posting_patterns []) ''hour_activity'' \<noteq>
     Some (THourCounts (map (\<lambda>h. (h, 0)) [0..<24])) \<and>
   result_get (analyze_posting_patterns []) ''post_frequency_days'' = None \<and>
   result_get (analyze_posting_patterns []) ''post_frequency_days'' \<noteq> Some (TInt 0)"
  by (simp add: analyze_posting_patterns_def result_get_def)

subsection \<open>The most active day and hour\<close>

text \<open>
  Claim C6: for every non-empty sequence of timestamps, the reported most-active day
  is a bucket \<open>i\<close> of the day histogram whose count is maximal and strictly greater
  than the count of every earlier bucket (Monday first), and the reported most-active
  hour is such a bucket \<open>h\<close> of the hour histogram (hour 0 first): among buckets
  that tie for the maximum the earliest one is selected. The histograms of the result
  are the counts per weekday and per hour.
\<close>

theorem most_active_bucket_is_first_maximum:
  assumes "post_times \<noteq> []" and "\<forall>t\<in>set post_times. valid_datetime t"
  shows "\<exists>i h. i < 7 \<and> h < 24 \<and>
      result_get (analyze_posting_patterns post_times) ''most_active_day'' =
        Some (TStr (days_of_week ! i)) \<and>
      result_get (analyze_posting_patterns post_times) ''day_activity'' =
        Some (TDayCounts (day_hist post_times)) \<and>
      (\<forall>j<7. day_count post_times j \<le> day_count post_times i) \<and>
      (\<forall>j<i. day_count post_times j < day_count post_times i) \<and>
      result_get (analyze_posting_patterns post_times) ''most_active_hour'' =
        Some (TInt (int h)) \<and>
      result_get (analyze_posting_patterns post_times) ''hour_activity'' =
        Some (THourCounts (hour_hist post_times)) \<and>
      (\<forall>j<24. hour_count post_times j \<le> hour_count post_times h) \<and>
      (\<forall>j<h. hour_count post_times j < hour_count post_times h)"
proof -
  from analyze_posting_patterns_shape [OF assms] obtain i h where s: "i < 7" "h < 24"
    "analyze_posting_patterns post_times =
        Inr [(''most_active_day'', TStr (days_of_week ! i)),
             (''day_activity'', TDayCounts (day_hist post_times)),
             (''most_active_hour'', TInt (int h)),
             (''hour_activity'', THourCounts (hour_hist post_times)),
             (''post_frequency_days'', post_frequency post_times)]"
    "\<forall>j<7. day_count post_times j \<le> day_count post_times i"
    "\<forall>j<i. day_count post_times j < day_count post_times i"
    "\<forall>j<24. hour_count post_times j \<le> hour_count post_times h"
    "\<forall>j<h. hour_count post_times j < hour_count post_times h" by blast
  have "i < 7 \<and> h < 24 \<and>
      result_get (analyze_posting_patterns post_times) ''most_active_day'' =
        Some (TStr (days_of_week ! i)) \<and>
      result_get (analyze_posting_patterns post_times) ''day_activity'' =
        Some (TDayCounts (day_hist post_times)) \<and>
      (\<forall>j<7. day_count post_times j \<le> day_count post_times i) \<and>
      (\<forall>j<i. day_count post_times j < day_count post_times i) \<and>
      result_get (analyze_posting_patterns post_times) ''most_active_hour'' =
        Some (TInt (int h)) \<and>
      result_get (analyze_posting_patterns post_times) ''hour_activity'' =
        Some (THourCounts (hour_hist post_times)) \<and>
      (\<forall>j<24. hour_count post_times j \<le> hour_count post_times h) \<and>
      (\<forall>j<h. hour_count post_times j < hour_count post_times h)"
    using s by (simp add: result_get_def)
  then show ?thesis by blast
qed

text \<open>
  The theorem at a Wednesday 14:00 post followed by a Monday 09:00 post: both days and
  both hours tie with one post each.
\<close>

theorem most_active_bucket_witness:
  "[wed14, mon9] \<noteq> [] \<and> valid_datetime wed14 \<and> valid_datetime mon9 \<and>
   (\<exists>i h. i < 7 \<and> h < 24 \<and>
      result_get (analyze_posting_patterns [wed14, mon9]) ''most_active_day'' =
        Some (TStr (days_of_week ! i)) \<and>
      result_get (analyze_posting_patterns [wed14, mon9]) ''day_activity'' =
        Some (TDayCounts (day_hist [wed14, mon9])) \<and>
      (\<forall>j<7. day_count [wed14, mon9] j \<le> day_count [wed14, mon9] i) \<and>
      (\<forall>j<i. day_count [wed14, mon9] j < day_count [wed14, mon9] i) \<and>
      result_get (analyze_posting_patterns [wed14, mon9]) ''most_active_hour'' =
        Some (TInt (int h)) \<and>
      result_get (analyze_posting_patterns [wed14, mon9]) ''hour_activity'' =
        Some (THourCounts (hour_hist [wed14, mon9])) \<and>
      (\<forall>j<24. hour_count [wed14, mon9] j \<le> hour_count [wed14, mon9] h) \<and>
      (\<forall>j<h. hour_count [wed14, mon9] j < hour_count [wed14, mon9] h))"
proof -
  have v1: "valid_datetime wed14" by (simp add: wed14_def datetime_eval)
  have v2: "valid_datetime mon9" by (simp add: mon9_def datetime_eval)
  have ne: "[wed14, mon9] \<noteq> []" by simp
  have v: "\<forall>t\<in>set [wed14, mon9]. valid_datetime t" using v1 v2 by simp
  from most_active_bucket_is_first_maximum [OF ne v] v1 v2 show ?thesis by blast
qed

subsection \<open>The average frequency\<close>

text \<open>
  Claim C3, as the code has it: for more than one timestamp the frequency is the count
  divided by \<open>max(d, 1)\<close>, where \<open>d\<close> is the signed number of whole days from
  the last element of the input to its first element. When the first element is the
  latest and the last element the earliest timestamp (newest first), this is the
  specification's count over the span between the earliest and the latest timestamp.
  When the first element is not later than the last (oldest first), the divisor is
  \<open>1\<close> and the frequency is the count itself. For a single timestamp the frequency
  is \<open>0\<close>; for no timestamp the summary has no frequency.
\<close>

theorem post_frequency_follows_input_order:
  assumes "\<forall>t\<in>set post_times. valid_datetime t"
  shows "(1 < length post_times \<longrightarrow>
            result_get (analyze_posting_patterns post_times) ''post_frequency_days'' =
              Some (TFloat (of_nat (length post_times) /
                     of_int (max (sub_days (hd post_times) (last post_times)) 1)))) \<and>
         (1 < length post_times \<and>
          (\<forall>t\<in>set post_times. instant (last post_times) \<le> instant t \<and>
                                 instant t \<le> instant (hd post_times)) \<longrightarrow>
            result_get (analyze_posting_patterns post_times) ''post_frequency_days'' =
              Some (spec_frequency post_times)) \<and>
         (1 < length post_times \<and> instant (hd post_times) \<le> instant (last post_times) \<longrightarrow>
            result_get (analyze_posting_patterns post_times) ''post_frequency_days'' =
              Some (TFloat (of_nat (length post_times)))) \<and>
         (length post_times = 1 \<longrightarrow>
            result_get (analyze_posting_patterns post_times) ''post_frequency_days'' =
              Some (TInt 0)) \<and>
         (post_times = [] \<longrightarrow>
            result_get (analyze_posting_patterns post_times) ''post_frequency_days'' = None)"
proof (intro conjI impI)
  assume l: "1 < length post_times"
  then have ne: "post_times \<noteq> []" by auto
  show "result_get (analyze_posting_patterns post_times) ''post_frequency_days'' =
      Some (TFloat (of_nat (length post_times) /
                     of_int (max (sub_days (hd post_times) (last post_times)) 1)))"
    using frequency_entry [OF ne assms] l by (simp add: post_frequency_def)
next
  assume a: "1 < length post_times \<and>
          (\<forall>t\<in>set post_times. instant (last post_times) \<le> instant t \<and>
                                 instant t \<le> instant (hd post_times))"
  then have ne: "post_times \<noteq> []" by auto
  from a have "spec_days_between post_times = sub_days (hd post_times) (last post_times)"
    using hd_last_extremes [OF ne] by blast
  then show "result_get (analyze_posting_patterns post_times) ''post_frequency_days'' =
      Some (spec_frequency post_times)"
    using frequency_entry [OF ne assms] a by (simp add: post_frequency_def spec_frequency_def)
next
  assume a: "1 < length post_times \<and> instant (hd post_times) \<le> instant (last post_times)"
  then have ne: "post_times \<noteq> []" by auto
  from a have "instant (hd post_times) - instant (last post_times) \<le> 0" by simp
  then have "(instant (hd post_times) - instant (last post_times)) div 86400000000 \<le> 0"
    by (rule div_nonpos_pos_le0) simp
  then have "sub_days (hd post_times) (last post_times) \<le> 0"
    by (simp add: sub_days_instant)
  then have "max (sub_days (hd post_times) (last post_times)) 1 = 1" by simp
  then show "result_get (analyze_posting_patterns post_times) ''post_frequency_days'' =
      Some (TFloat (of_nat (length post_times)))"
    using frequency_entry [OF ne assms] a by (simp add: post_frequency_def)
next
  assume l: "length post_times = 1"
  then have ne: "post_times \<noteq> []" by auto
  show "result_get (analyze_posting_patterns post_times) ''post_frequency_days'' = Some (TInt 0)"
    using frequency_entry [OF ne assms] l by (simp add: post_frequency_def)
next
  assume "post_times = []"
  then show "result_get (analyze_posting_patterns post_times) ''post_frequency_days'' = None"
    by (simp add: analyze_posting_patterns_def result_get_def)
qed

text \<open>
  The theorem at the newest-first input 11 January, 1 January: two posts over ten
  days.
\<close>

theorem post_frequency_witness:
  "valid_datetime jan11 \<and> valid_datetime jan1 \<and> 1 < length [jan11, jan1] \<and>
   result_get (analyze_posting_patterns [jan11, jan1]) ''post_frequency_days'' =
     Some (TFloat (of_nat (length [jan11, jan1]) /
                   of_int (max (sub_days (hd [jan11, jan1]) (last [jan11, jan1])) 1))) \<and>
   result_get (analyze_posting_patterns [jan11, jan1]) ''post_frequency_days'' =
     Some (spec_frequency [jan11, jan1]) \<and>
   spec_frequency [jan11, jan1] = TFloat (1 / 5)"
proof -
  have v1: "valid_datetime jan11" by (simp add: jan11_def datetime_eval)
  have v2: "valid_datetime jan1" by (simp add: jan1_def datetime_eval)
  have v: "\<forall>t\<in>set [jan11, jan1]. valid_datetime t" using v1 v2 by simp
  have l: "1 < length [jan11, jan1]" by simp
  have o: "\<forall>t\<in>set [jan11, jan1]. instant (last [jan11, jan1]) \<le> instant t \<and>
                                 instant t \<le> instant (hd [jan11, jan1])"
    by (simp add: instant_jan1 instant_jan11)
  have s: "spec_frequency [jan11, jan1] = TFloat (1 / 5)"
    by (simp add: spec_frequency_def spec_days_between_def instant_jan1 instant_jan11)
  from post_frequency_follows_input_order [OF v] l o s v1 v2 show ?thesis by blast
qed

text \<open>
  Against claim C3 as stated: the same two timestamps oldest first give the frequency
  \<open>2\<close>, newest first \<open>1/5\<close>; the specification's value for both orders is
  \<open>1/5\<close>.
\<close>

theorem post_frequency_order_dependent:
  "result_get (analyze_posting_patterns [jan1, jan11]) ''post_frequency_days'' = Some (TFloat 2) \<and>
   result_get (analyze_posting_patterns [jan11, jan1]) ''post_frequency_days'' = Some (TFloat (1 / 5)) \<and>
   spec_frequency [jan1, jan11] = TFloat (1 / 5) \<and>
   result_get (analyze_posting_patterns [jan1, jan11]) ''post_frequency_days'' \<noteq>
     Some (spec_frequency [jan1, jan11])"
  by (simp add: spec_frequency_example oldest_first_eval newest_first_eval)

section \<open>Properties of the post aggregator\<close>

subsection \<open>The loop on a known sequence\<close>

declare posts_loop.simps [simp del]

lemma yields_nth:
  assumes "yields s xs fin" and "i < length xs"
  shows "s i = Item (xs ! i)"
proof -
  have eq: "map s [0..<length xs] = map Item xs" using assms(1) by (simp only: yields_def)
  have "s i = map s [0..<length xs] ! i" using assms(2) by simp
  also have "\<dots> = map Item xs ! i" by (simp only: eq)
  also have "\<dots> = Item (xs ! i)" using assms(2) by simp
  finally show ?thesis .
qed

lemma yields_end: "yields s xs fin \<Longrightarrow> s (length xs) = fin"
  by (simp add: yields_def)

lemma yields_seq_of: "yields (seq_of xs fin) xs fin"
  by (auto simp: yields_def seq_of_def intro!: nth_equalityI)

lemma posts_loop_raised:
  "(\<And>j. j < length xs \<Longrightarrow> s (i + j) = Item (xs ! j)) \<Longrightarrow>
   s (i + length xs) = Raised e \<Longrightarrow> int (i + length xs) \<le> m \<Longrightarrow>
   posts_loop m s i a = (Inl e, i + length xs)"
proof (induction xs arbitrary: i a)
  case Nil
  then show ?case by (simp add: posts_loop.simps)
next
  case (Cons x xs)
  have s0: "s i = Item x" using Cons.prems(1) [of 0] by simp
  have lt: "\<not> m \<le> int i" using Cons.prems(3) by simp
  have step: "posts_loop m s i a = posts_loop m s (Suc i) (process_post x a)"
    by (subst posts_loop.simps) (simp add: s0 lt)
  have rest: "\<And>j. j < length xs \<Longrightarrow> s (Suc i + j) = Item (xs ! j)"
    using Cons.prems(1) [of "Suc _"] by simp
  have "posts_loop m s (Suc i) (process_post x a) = (Inl e, Suc i + length xs)"
    using Cons.IH [of "Suc i", OF rest] Cons.prems(2,3) by simp
  with step show ?case by simp
qed

lemma posts_loop_stop:
  "(\<And>j. j < length xs \<Longrightarrow> s (i + j) = Item (xs ! j)) \<Longrightarrow>
   s (i + length xs) = StopIteration \<Longrightarrow> int (i + length xs) \<le> m \<Longrightarrow>
   posts_loop m s i a = (Inr (fold process_post xs a), i + length xs)"
proof (induction xs arbitrary: i a)
  case Nil
  then show ?case by (simp add: posts_loop.simps)
next
  case (Cons x xs)
  have s0: "s i = Item x" using Cons.prems(1) [of 0] by simp
  have lt: "\<not> m \<le> int i" using Cons.prems(3) by simp
  have step: "posts_loop m s i a = posts_loop m s (Suc i) (process_post x a)"
    by (subst posts_loop.simps) (simp add: s0 lt)
  have rest: "\<And>j. j < length xs \<Longrightarrow> s (Suc i + j) = Item (xs ! j)"
    using Cons.prems(1) [of "Suc _"] by simp
  have "posts_loop m s (Suc i) (process_post x a) =
      (Inr (fold process_post xs (process_post x a)), Suc i + length xs)"
    using Cons.IH [of "Suc i", OF rest] Cons.prems(2,3) by simp
  with step show ?case by simp
qed

lemma posts_loop_cut:
  "(\<And>j. j < length xs \<Longrightarrow> s (i + j) = Item (xs ! j)) \<Longrightarrow>
   s (i + length xs) = Item y \<Longrightarrow> int (i + length xs) = m \<Longrightarrow>
   posts_loop m s i a = (Inr (fold process_post xs a), Suc (i + length xs))"
proof (induction xs arbitrary: i a)
  case Nil
  then show ?case by (simp add: posts_loop.simps)
next
  case (Cons x xs)
  have s0: "s i = Item x" using Cons.prems(1) [of 0] by simp
  have lt: "\<not> m \<le> int i" using Cons.prems(3) by simp
  have step: "posts_loop m s i a = posts_loop m s (Suc i) (process_post x a)"
    by (subst posts_loop.simps) (simp add: s0 lt)
  have rest: "\<And>j. j < length xs \<Longrightarrow> s (Suc i + j) = Item (xs ! j)"
    using Cons.prems(1) [of "Suc _"] by simp
  have "posts_loop m s (Suc i) (process_post x a) =
      (Inr (fold process_post xs (process_post x a)), Suc (Suc i + length xs))"
    using Cons.IH [of "Suc i", OF rest] Cons.prems(2,3) by simp
  with step show ?case by simp
qed

lemma fold_process_post_data:
  "acc_posts_data (fold process_post ps a) = acc_posts_data a @ map make_post_data ps"
  by (induction ps arbitrary: a) (simp_all add: process_post_def)

lemma fold_process_post_times:
  "acc_post_times (fold process_post ps a) = acc_post_times a @ map date_utc ps"
  by (induction ps arbitrary: a) (simp_all add: process_post_def)

lemma analyze_posting_patterns_total:
  assumes "\<forall>t\<in>set ts. valid_datetime t"
  shows "\<exists>tp. analyze_posting_patterns ts = Inr tp"
proof (cases "ts = []")
  case True
  then show ?thesis by (simp add: analyze_posting_patterns_def)
next
  case False
  from analyze_posting_patterns_shape [OF False assms] show ?thesis by blast
qed

lemma prefix_bundle_data:
  assumes "\<forall>p\<in>set ps. valid_datetime (date_utc p)"
  shows "\<exists>b. prefix_bundle ps = Inr b \<and> posts_analyzed b = length ps \<and>
              posts_data b = map make_post_data ps"
proof -
  have "\<forall>t\<in>set (map date_utc ps). valid_datetime t" using assms by simp
  from analyze_posting_patterns_total [OF this] obtain tp where
    "analyze_posting_patterns (map date_utc ps) = Inr tp" by blast
  then show ?thesis
    by (simp add: prefix_bundle_def finish_analysis_def fold_process_post_times
        fold_process_post_data init_acc_def)
qed

lemma valid_jan1: "valid_datetime jan1"
  by (simp add: jan1_def datetime_eval)

lemma valid_jan11: "valid_datetime jan11"
  by (simp add: jan11_def datetime_eval)

lemma date_post_a: "date_utc post_a = jan11"
  by (simp add: post_a_def example_post_def)

lemma date_post_b: "date_utc post_b = jan1"
  by (simp add: post_b_def example_post_def)

lemma get_posts_example: "get_posts (example_profile s) = s"
  by (simp add: example_profile_def)

lemma analyze_posts_of_loop:
  assumes "posts_loop max_posts (get_posts prof) 0 init_acc = (Inr (fold process_post ps init_acc), n)"
    and "\<forall>p\<in>set ps. valid_datetime (date_utc p)"
  shows "\<exists>b. analyze_posts max_posts prof = (b, n) \<and> posts_analyzed b = length ps \<and>
             posts_data b = map make_post_data ps \<and> prefix_bundle ps = Inr b"
proof -
  from prefix_bundle_data [OF assms(2)] obtain b where
    b: "prefix_bundle ps = Inr b" "posts_analyzed b = length ps"
       "posts_data b = map make_post_data ps" by blast
  have "analyze_posts max_posts prof = (b, n)"
    using assms(1) b(1) by (simp add: analyze_posts_def analyze_posts_try_def prefix_bundle_def)
  with b show ?thesis by blast
qed

lemma short_sequence_no_padding:
  assumes "yields (get_posts prof) ps StopIteration" and "int (length ps) \<le> max_posts"
    and "\<forall>p\<in>set ps. valid_datetime (date_utc p)"
  shows "\<exists>b. analyze_posts max_posts prof = (b, length ps) \<and> posts_analyzed b = length ps \<and>
             posts_data b = map make_post_data ps \<and> prefix_bundle ps = Inr b"
proof -
  have "posts_loop max_posts (get_posts prof) 0 init_acc =
      (Inr (fold process_post ps init_acc), 0 + length ps)"
    using assms(1,2) by (intro posts_loop_stop) (simp_all add: yields_nth yields_end)
  then show ?thesis using analyze_posts_of_loop [OF _ assms(3)] by simp
qed

lemma window_closes_after_limit:
  assumes "yields (get_posts prof) ps (Item p)" and "int (length ps) = max_posts"
    and "\<forall>p\<in>set ps. valid_datetime (date_utc p)"
  shows "\<exists>b. analyze_posts max_posts prof = (b, Suc (length ps)) \<and>
             posts_analyzed b = length ps \<and> posts_data b = map make_post_data ps \<and>
             prefix_bundle ps = Inr b"
proof -
  have "posts_loop max_posts (get_posts prof) 0 init_acc =
      (Inr (fold process_post ps init_acc), Suc (0 + length ps))"
    using assms(1,2) by (intro posts_loop_cut [where y = p]) (simp_all add: yields_nth yields_end)
  then show ?thesis using analyze_posts_of_loop [OF _ assms(3)] by simp
qed

lemma yields_raising_after_one:
  "yields (get_posts raising_after_one) [post_a] (Raised (ProviderError ''connection lost''))"
  unfolding raising_after_one_def get_posts_example by (rule yields_seq_of)

lemma raising_after_one_eval:
  assumes "int (length [post_a]) \<le> m"
  shows "analyze_posts m raising_after_one = (empty_results, 1)"
proof -
  let ?s = "get_posts raising_after_one"
  have n: "\<And>j. j < length [post_a] \<Longrightarrow> ?s (0 + j) = Item ([post_a] ! j)"
    using yields_nth [OF yields_raising_after_one] by simp
  have e: "?s (0 + length [post_a]) = Raised (ProviderError ''connection lost'')"
    using yields_end [OF yields_raising_after_one] by simp
  have l: "int (0 + length [post_a]) \<le> m" using assms by simp
  have "posts_loop m ?s 0 init_acc =
      (Inl (ProviderError ''connection lost''), 0 + length [post_a])"
    using n e l by (rule posts_loop_raised)
  then show ?thesis by (simp add: analyze_posts_def analyze_posts_try_def)
qed

lemma prefix_bundle_post_a:
  "\<exists>b. prefix_bundle [post_a] = Inr b \<and> posts_analyzed b = 1 \<and>
       posts_data b = [make_post_data post_a]"
  using prefix_bundle_data [of "[post_a]"] by (simp add: date_post_a valid_jan11)

lemma yields_two_posts: "yields (get_posts two_posts) [post_a] (Item post_b)"
  by (simp add: two_posts_def get_posts_example yields_def seq_of_def)

lemma yields_endless: "yields (get_posts endless) [post_a] (Item post_a)"
  by (simp add: endless_def get_posts_example yields_def)

subsection \<open>A sequence that raises\<close>

text \<open>
  Claim C1, as the code has it: when the post sequence hands over the posts \<open>ps\<close>,
  fewer than \<open>max_posts\<close> of them, and then raises, \<open>analyze_posts\<close> returns the
  zeroed bundle of its \<open>except\<close> clause, whatever was consumed before; the posts
  already processed are discarded with the rest. The failure is not propagated: the
  function returns a bundle.
\<close>

theorem raised_enumeration_gives_empty_bundle:
  assumes "yields (get_posts prof) ps (Raised e)" and "int (length ps) < max_posts"
  shows "analyze_posts max_posts prof = (empty_results, length ps)"
proof -
  have le: "int (length ps) \<le> max_posts" using assms(2) by simp
  have "posts_loop max_posts (get_posts prof) 0 init_acc = (Inl e, 0 + length ps)"
    using assms(1) le by (intro posts_loop_raised) (simp_all add: yields_nth yields_end)
  then show ?thesis by (simp add: analyze_posts_def analyze_posts_try_def)
qed

text \<open>
  The theorem at a sequence of one post followed by a failure, with a limit of five.
\<close>

theorem raised_enumeration_witness:
  "yields (get_posts raising_after_one) [post_a] (Raised (ProviderError ''connection lost'')) \<and>
   int (length [post_a]) < 5 \<and>
   analyze_posts 5 raising_after_one = (empty_results, 1)"
proof -
  have l: "int (length [post_a]) < 5" by simp
  from raised_enumeration_gives_empty_bundle [OF yields_raising_after_one l]
  show ?thesis using yields_raising_after_one by simp
qed

text \<open>
  Against claim C1 as stated: one post was consumed before the failure, yet the
  returned bundle counts no post and is not the bundle of that one-post prefix.
\<close>

theorem raised_enumeration_drops_prefix:
  "analyze_posts 5 raising_after_one = (empty_results, 1) \<and>
   posts_analyzed (fst (analyze_posts 5 raising_after_one)) = 0 \<and>
   posts_data (fst (analyze_posts 5 raising_after_one)) = [] \<and>
   prefix_bundle [post_a] \<noteq> Inr (fst (analyze_posts 5 raising_after_one))"
proof -
  have e: "analyze_posts 5 raising_after_one = (empty_results, 1)"
    by (rule raising_after_one_eval) simp
  from prefix_bundle_post_a obtain b where b: "prefix_bundle [post_a] = Inr b"
    "posts_analyzed b = 1" by blast
  have "b \<noteq> empty_results" using b(2) by (auto simp: empty_results_def)
  with b(1) e show ?thesis by (simp add: empty_results_def)
qed

subsection \<open>The window\<close>

text \<open>
  Claim C5 at a limit of one: from a sequence of two posts, and from a sequence that
  never ends, the loop takes two posts and keeps one summary; the second post is taken
  by \<open>enumerate\<close> before the index is compared with the limit. When the sequence
  fails in place of that second post, the bundle is the zeroed one, although the one
  post within the limit was handed over.
\<close>

theorem limit_pulls_one_more_post:
  "snd (analyze_posts 1 two_posts) = 2 \<and>
   posts_analyzed (fst (analyze_posts 1 two_posts)) = 1 \<and>
   snd (analyze_posts 1 endless) = 2 \<and>
   posts_analyzed (fst (analyze_posts 1 endless)) = 1 \<and>
   analyze_posts 1 raising_after_one = (empty_results, 1) \<and>
   posts_analyzed (fst (analyze_posts 1 raising_after_one)) = 0"
proof -
  have v: "\<forall>p\<in>set [post_a]. valid_datetime (date_utc p)"
    by (simp add: date_post_a valid_jan11)
  have l: "int (length [post_a]) = 1" by simp
  from window_closes_after_limit [OF yields_two_posts l v]
  have a: "snd (analyze_posts 1 two_posts) = 2 \<and>
           posts_analyzed (fst (analyze_posts 1 two_posts)) = 1" by auto
  from window_closes_after_limit [OF yields_endless l v]
  have b: "snd (analyze_posts 1 endless) = 2 \<and>
           posts_analyzed (fst (analyze_posts 1 endless)) = 1" by auto
  have c: "analyze_posts 1 raising_after_one = (empty_results, 1)"
    by (rule raising_after_one_eval) simp
  from a b c show ?thesis by (simp add: empty_results_def)
qed

section \<open>Properties of the connection analysis\<close>

subsection \<open>Reading a sequence to its end\<close>

lemma collect_yields:
  "(\<And>j. j < length xs \<Longrightarrow> s (i + j) = Item (xs ! j)) \<Longrightarrow>
   s (i + length xs) = fin \<Longrightarrow> fin = StopIteration \<or> fin = Raised e \<Longrightarrow>
   collect s i acc = Some (if fin = StopIteration then Inr (acc @ xs) else Inl e)"
proof (induction xs arbitrary: i acc)
  case Nil
  then show ?case by (subst collect.simps) auto
next
  case (Cons x xs)
  have s0: "s i = Item x" using Cons.prems(1) [of 0] by simp
  have step: "collect s i acc = collect s (Suc i) (acc @ [x])"
    by (subst collect.simps) (simp add: s0)
  have rest: "\<And>j. j < length xs \<Longrightarrow> s (Suc i + j) = Item (xs ! j)"
    using Cons.prems(1) [of "Suc _"] by simp
  have "collect s (Suc i) (acc @ [x]) =
      Some (if fin = StopIteration then Inr ((acc @ [x]) @ xs) else Inl e)"
    using Cons.IH [of "Suc i", OF rest] Cons.prems(2,3) by simp
  with step show ?case by simp
qed

lemma collect_stop:
  assumes "yields s xs StopIteration"
  shows "collect s 0 [] = Some (Inr xs)"
proof -
  have n: "\<And>j. j < length xs \<Longrightarrow> s (0 + j) = Item (xs ! j)"
    using yields_nth [OF assms] by simp
  have e: "s (0 + length xs) = StopIteration" using yields_end [OF assms] by simp
  from collect_yields [OF n e, where acc = "[]"] show ?thesis by simp
qed

lemma collect_raised:
  assumes "yields s xs (Raised e)"
  shows "collect s 0 [] = Some (Inl e)"
proof -
  have n: "\<And>j. j < length xs \<Longrightarrow> s (0 + j) = Item (xs ! j)"
    using yields_nth [OF assms] by simp
  have e: "s (0 + length xs) = Raised e" using yields_end [OF assms] by simp
  from collect_yields [OF n e, where acc = "[]" and e = e] show ?thesis by simp
qed

lemma conn_profile_sel:
  "is_private (conn_profile p fs gs) = p"
  "get_followers (conn_profile p fs gs) = fs"
  "get_followees (conn_profile p fs gs) = gs"
  by (simp_all add: conn_profile_def)

lemma analyze_connections_success:
  assumes "\<not> is_private prof" and "yields (get_followers prof) fs StopIteration"
    and "yields (get_followees prof) gs StopIteration"
  shows "analyze_connections True prof = Some (connections_data fs gs)"
  using assms by (simp add: analyze_connections_def collect_stop)

lemma set_not_following_back:
  "set (not_following_back fs gs) = username ` set gs - username ` set fs"
  by (auto simp: not_following_back_def)

lemma set_not_followed_back:
  "set (not_followed_back fs gs) = username ` set fs - username ` set gs"
  by (auto simp: not_followed_back_def)

lemma conn_get_data:
  "conn_get (Some (connections_data fs gs)) ''not_following_back'' =
     Some (CNames (not_following_back fs gs))"
  "conn_get (Some (connections_data fs gs)) ''not_followed_back'' =
     Some (CNames (not_followed_back fs gs))"
  by (simp_all add: conn_get_def connections_data_def)

lemma analyze_connections_private:
  "is_private prof \<Longrightarrow> analyze_connections li prof = Some no_connections"
  by (simp add: analyze_connections_def)

subsection \<open>The difference lists\<close>

text \<open>
  Claim C9: on the success path the result carries \<open>not_following_back\<close>, the
  handles of the followees that are no handle of a follower, and \<open>not_followed_back\<close>,
  the handles of the followers that are no handle of a followee. Read as sets they depend
  on the handles only: a profile whose follower and followee sequences hand over the
  same users in another order gives the same two sets.
\<close>

theorem difference_lists_order_independent:
  assumes "\<not> is_private prof" and "\<not> is_private prof'"
    and "yields (get_followers prof) fs StopIteration"
    and "yields (get_followees prof) gs StopIteration"
    and "yields (get_followers prof') fs' StopIteration"
    and "yields (get_followees prof') gs' StopIteration"
    and "mset fs' = mset fs" and "mset gs' = mset gs"
  shows "conn_get (analyze_connections True prof) ''not_following_back'' =
           Some (CNames (not_following_back fs gs)) \<and>
         conn_get (analyze_connections True prof) ''not_followed_back'' =
           Some (CNames (not_followed_back fs gs)) \<and>
         conn_get (analyze_connections True prof') ''not_following_back'' =
           Some (CNames (not_following_back fs' gs')) \<and>
         conn_get (analyze_connections True prof') ''not_followed_back'' =
           Some (CNames (not_followed_back fs' gs')) \<and>
         set (not_following_back fs' gs') = set (not_following_back fs gs) \<and>
         set (not_followed_back fs' gs') = set (not_followed_back fs gs) \<and>
         set (not_following_back fs gs) = username ` set gs - username ` set fs \<and>
         set (not_followed_back fs gs) = username ` set fs - username ` set gs"
proof -
  have s: "set fs' = set fs" "set gs' = set gs"
    using assms(7,8) by (auto dest: mset_eq_setD)
  have a: "analyze_connections True prof = Some (connections_data fs gs)"
    using assms(1,3,4) by (rule analyze_connections_success)
  have b: "analyze_connections True prof' = Some (connections_data fs' gs')"
    using assms(2,5,6) by (rule analyze_connections_success)
  show ?thesis
    unfolding a b conn_get_data set_not_following_back set_not_followed_back s by simp
qed

text \<open>
  The theorem at followers alice, bob and followees bob, carol, and at both lists
  reversed: carol does not follow back, alice is not followed back.
\<close>

theorem difference_lists_witness:
  "\<not> is_private (conn_profile False (seq_of [alice, bob] StopIteration) (seq_of [bob, carol] StopIteration)) \<and>
   mset [bob, alice] = mset [alice, bob] \<and> mset [carol, bob] = mset [bob, carol] \<and>
   conn_get (analyze_connections True
       (conn_profile False (seq_of [alice, bob] StopIteration) (seq_of [bob, carol] StopIteration)))
     ''not_following_back'' = Some (CNames [''carol'']) \<and>
   conn_get (analyze_connections True
       (conn_profile False (seq_of [bob, alice] StopIteration) (seq_of [carol, bob] StopIteration)))
     ''not_following_back'' = Some (CNames [''carol'']) \<and>
   conn_get (analyze_connections True
       (conn_profile False (seq_of [alice, bob] StopIteration) (seq_of [bob, carol] StopIteration)))
     ''not_followed_back'' = Some (CNames [''alice'']) \<and>
   conn_get (analyze_connections True
       (conn_profile False (seq_of [bob, alice] StopIteration) (seq_of [carol, bob] StopIteration)))
     ''not_followed_back'' = Some (CNames [''alice''])"
proof -
  let ?p = "conn_profile False (seq_of [alice, bob] StopIteration) (seq_of [bob, carol] StopIteration)"
  let ?q = "conn_profile False (seq_of [bob, alice] StopIteration) (seq_of [carol, bob] StopIteration)"
  have p: "\<not> is_private ?p" and q: "\<not> is_private ?q" by (simp_all add: conn_profile_sel)
  have y1: "yields (get_followers ?p) [alice, bob] StopIteration"
    unfolding conn_profile_sel by (rule yields_seq_of)
  have y2: "yields (get_followees ?p) [bob, carol] StopIteration"
    unfolding conn_profile_sel by (rule yields_seq_of)
  have y3: "yields (get_followers ?q) [bob, alice] StopIteration"
    unfolding conn_profile_sel by (rule yields_seq_of)
  have y4: "yields (get_followees ?q) [carol, bob] StopIteration"
    unfolding conn_profile_sel by (rule yields_seq_of)
  have m1: "mset [bob, alice] = mset [alice, bob]" by (simp add: add_mset_commute)
  have m2: "mset [carol, bob] = mset [bob, carol]" by (simp add: add_mset_commute)
  have e: "not_following_back [alice, bob] [bob, carol] = [''carol'']"
    "not_followed_back [alice, bob] [bob, carol] = [''alice'']"
    "not_following_back [bob, alice] [carol, bob] = [''carol'']"
    "not_followed_back [bob, alice] [carol, bob] = [''alice'']"
    by (simp_all add: not_following_back_def not_followed_back_def alice_def bob_def carol_def)
  from difference_lists_order_independent [OF p q y1 y2 y3 y4 m1 m2] p m1 m2
  show ?thesis unfolding e by simp
qed

subsection \<open>The failure paths\<close>

text \<open>
  Claim C10: when the profile is private, when the caller is not logged in, and when
  reading the followers or the followees raises, \<open>analyze_connections\<close> returns the
  dictionary with the two keys \<open>followers\<close> and \<open>following\<close>, both empty lists;
  the keys \<open>followers_count\<close>, \<open>following_count\<close>, \<open>not_following_back\<close> and
  \<open>not_followed_back\<close> of the success path, whose result has six keys, are absent.
\<close>

theorem failure_result_has_only_two_keys:
  "(is_private prof \<longrightarrow> analyze_connections li prof = Some no_connections) \<and>
   (\<not> li \<longrightarrow> analyze_connections li prof = Some no_connections) \<and>
   (yields (get_followers prof) fs (Raised e) \<longrightarrow>
      analyze_connections li prof = Some no_connections) \<and>
   (yields (get_followers prof) fs StopIteration \<and> yields (get_followees prof) gs (Raised e) \<longrightarrow>
      analyze_connections li prof = Some no_connections) \<and>
   (\<not> is_private prof \<and> li \<and> yields (get_followers prof) fs StopIteration \<and>
    yields (get_followees prof) gs StopIteration \<longrightarrow>
      analyze_connections li prof = Some (connections_data fs gs)) \<and>
   dict_keys no_connections = [''followers'', ''following''] \<and>
   dict_get no_connections ''followers'' = Some (CUsers []) \<and>
   dict_get no_connections ''following'' = Some (CUsers []) \<and>
   dict_keys (connections_data fs gs) =
     [''followers_count'', ''following_count'', ''not_following_back'', ''not_followed_back'',
      ''followers'', ''following''] \<and>
   dict_get no_connections ''followers_count'' = None \<and>
   dict_get no_connections ''following_count'' = None \<and>
   dict_get no_connections ''not_following_back'' = None \<and>
   dict_get no_connections ''not_followed_back'' = None"
proof (intro conjI impI)
  assume "is_private prof"
  then show "analyze_connections li prof = Some no_connections"
    by (simp add: analyze_connections_def)
next
  assume "\<not> li"
  then show "analyze_connections li prof = Some no_connections"
    by (simp add: analyze_connections_def)
next
  assume "yields (get_followers prof) fs (Raised e)"
  then show "analyze_connections li prof = Some no_connections"
    by (simp add: analyze_connections_def collect_raised)
next
  assume "yields (get_followers prof) fs StopIteration \<and> yields (get_followees prof) gs (Raised e)"
  then have a: "yields (get_followers prof) fs StopIteration"
    and b: "yields (get_followees prof) gs (Raised e)" by simp_all
  show "analyze_connections li prof = Some no_connections"
    by (simp add: analyze_connections_def collect_raised [OF b] collect_stop [OF a])
next
  assume "\<not> is_private prof \<and> li \<and> yields (get_followers prof) fs StopIteration \<and>
    yields (get_followees prof) gs StopIteration"
  then have p: "\<not> is_private prof" "li"
    and a: "yields (get_followers prof) fs StopIteration"
    and b: "yields (get_followees prof) gs StopIteration" by simp_all
  show "analyze_connections li prof = Some (connections_data fs gs)"
    using p by (simp add: analyze_connections_def collect_stop [OF a] collect_stop [OF b])
qed (simp_all add: no_connections_def connections_data_def dict_keys_def)

text \<open>
  The theorem at a private profile, at a caller who is not logged in, at a follower
  sequence and at a followee sequence that raise after one user, and at a profile whose
  two sequences end normally.
\<close>

theorem failure_result_witness:
  "is_private (conn_profile True (seq_of [alice] StopIteration) (seq_of [bob] StopIteration)) \<and>
   analyze_connections True
     (conn_profile True (seq_of [alice] StopIteration) (seq_of [bob] StopIteration)) =
     Some no_connections \<and>
   analyze_connections False
     (conn_profile False (seq_of [alice] StopIteration) (seq_of [bob] StopIteration)) =
     Some no_connections \<and>
   analyze_connections True
     (conn_profile False (seq_of [alice] (Raised (ProviderError ''rate limited'')))
        (seq_of [bob] StopIteration)) = Some no_connections \<and>
   analyze_connections True
     (conn_profile False (seq_of [alice] StopIteration)
        (seq_of [bob] (Raised (ProviderError ''rate limited'')))) = Some no_connections \<and>
   analyze_connections True
     (conn_profile False (seq_of [alice] StopIteration) (seq_of [bob] StopIteration)) =
     Some (connections_data [alice] [bob]) \<and>
   dict_keys no_connections = [''followers'', ''following''] \<and>
   dict_keys (connections_data [alice] [bob]) =
     [''followers_count'', ''following_count'', ''not_following_back'', ''not_followed_back'',
      ''followers'', ''following'']"
proof -
  let ?e = "ProviderError ''rate limited''"
  let ?p1 = "conn_profile True (seq_of [alice] StopIteration) (seq_of [bob] StopIteration)"
  let ?p2 = "conn_profile False (seq_of [alice] StopIteration) (seq_of [bob] StopIteration)"
  let ?p3 = "conn_profile False (seq_of [alice] (Raised ?e)) (seq_of [bob] StopIteration)"
  let ?p4 = "conn_profile False (seq_of [alice] StopIteration) (seq_of [bob] (Raised ?e))"
  have h1: "is_private ?p1" by (simp add: conn_profile_sel)
  have h2: "\<not> is_private ?p2" by (simp add: conn_profile_sel)
  have y2a: "yields (get_followers ?p2) [alice] StopIteration"
    unfolding conn_profile_sel by (rule yields_seq_of)
  have y2b: "yields (get_followees ?p2) [bob] StopIteration"
    unfolding conn_profile_sel by (rule yields_seq_of)
  have y3: "yields (get_followers ?p3) [alice] (Raised ?e)"
    unfolding conn_profile_sel by (rule yields_seq_of)
  have y4a: "yields (get_followers ?p4) [alice] StopIteration"
    unfolding conn_profile_sel by (rule yields_seq_of)
  have y4b: "yields (get_followees ?p4) [bob] (Raised ?e)"
    unfolding conn_profile_sel by (rule yields_seq_of)
  note t = failure_result_has_only_two_keys
  have r1: "analyze_connections True ?p1 = Some no_connections"
    using t [where prof = ?p1 and li = True] h1 by blast
  have r2: "analyze_connections False ?p2 = Some no_connections"
    using t [where prof = ?p2 and li = False] by blast
  have r3: "analyze_connections True ?p3 = Some no_connections"
    using t [where prof = ?p3 and fs = "[alice]" and e = ?e and li = True] y3 by blast
  have r4: "analyze_connections True ?p4 = Some no_connections"
    using t [where prof = ?p4 and fs = "[alice]" and e = ?e and gs = "[bob]" and li = True] y4a y4b by blast
  have r5: "analyze_connections True ?p2 = Some (connections_data [alice] [bob])"
    using t [where prof = ?p2 and fs = "[alice]" and e = ?e and gs = "[bob]" and li = True] h2 y2a y2b by blast
  have k: "dict_keys no_connections = [''followers'', ''following'']"
    "dict_keys (connections_data [alice] [bob]) =
     [''followers_count'', ''following_count'', ''not_following_back'', ''not_followed_back'',
      ''followers'', ''following'']"
    using t [where prof = ?p2 and fs = "[alice]" and e = ?e and gs = "[bob]" and li = True] by blast+
  from h1 r1 r2 r3 r4 r5 k show ?thesis by blast
qed

section \<open>Properties of the presence prober\<close>

subsection \<open>Labels, single checks and the pool\<close>

lemmas string_eval = platform_label_def urlparse_netloc_def split_scheme_def scheme_chars_def
  ascii_lowercase_def ascii_uppercase_def capitalize_def split_first_def to_upper_def
  to_lower_def

lemma platform_twitter: "platform_label (''https://twitter.com/'' @ target) = Inr ''Twitter''"
  by (simp add: string_eval)

lemma platform_facebook:
  "platform_label (''https://www.facebook.com/'' @ target) = Inr ''Facebook''"
  by (simp add: string_eval)

lemma platform_tiktok: "platform_label (''https://www.tiktok.com/@'' @ target) = Inr ''Tiktok''"
  by (simp add: string_eval)

lemma platform_reddit:
  "platform_label (''https://www.reddit.com/user/'' @ target) = Inr ''Reddit''"
  by (simp add: string_eval)

lemma platform_linkedin:
  "platform_label (''https://www.linkedin.com/in/'' @ target) = Inr ''Linkedin''"
  by (simp add: string_eval)

lemma platform_github: "platform_label (''https://github.com/'' @ target) = Inr ''Github''"
  by (simp add: string_eval)

lemma platform_youtube:
  "platform_label (''https://www.youtube.com/user/'' @ target) = Inr ''Youtube''"
  by (simp add: string_eval)

lemma platform_label_sites:
  "map platform_label (sites_to_check target) = map Inr platform_names"
  by (simp only: sites_to_check_def platform_names_def list.map platform_twitter
      platform_facebook platform_tiktok platform_reddit platform_linkedin platform_github
      platform_youtube)

lemma platform_label_site:
  assumes "u \<in> set (sites_to_check target)"
  shows "\<exists>label. platform_label u = Inr label"
proof -
  from assms obtain i where i: "i < length (sites_to_check target)"
    "u = sites_to_check target ! i" by (auto simp: in_set_conv_nth)
  have "map platform_label (sites_to_check target) ! i = map Inr platform_names ! i"
    by (simp only: platform_label_sites)
  moreover have "length platform_names = length (sites_to_check target)"
    by (simp add: platform_names_def sites_to_check_def)
  ultimately have "platform_label u = Inr (platform_names ! i)" using i by simp
  then show ?thesis by blast
qed

lemma check_url_found:
  "platform_label u = Inr label \<Longrightarrow> net u = Inr 200 \<Longrightarrow>
   check_url net u = Inr [(''platform'', PStr label), (''url'', PStr u),
                          (''status'', PStr ''Found''), (''response_code'', PInt 200)]"
  by (simp add: check_url_def check_url_try_def)

lemma check_url_not_found:
  "platform_label u = Inr label \<Longrightarrow> net u = Inr c \<Longrightarrow> c \<noteq> 200 \<Longrightarrow>
   check_url net u = Inr [(''platform'', PStr label), (''url'', PStr u),
                          (''status'', PStr ''Not found''), (''response_code'', PInt c)]"
  by (simp add: check_url_def check_url_try_def)

lemma check_url_error:
  "platform_label u = Inr label \<Longrightarrow> net u = Inl e \<Longrightarrow>
   check_url net u = Inr [(''platform'', PStr label), (''url'', PStr u),
                          (''status'', PStr ''Error''),
                          (''response_code'', PStr (str_of_exn e))]"
  by (simp add: check_url_def check_url_try_def)

lemma check_url_returns:
  assumes "platform_label u = Inr label"
  shows "\<exists>r. check_url net u = Inr r \<and> dict_get r ''url'' = Some (PStr u) \<and>
             dict_get r ''platform'' = Some (PStr label)"
proof (cases "net u")
  case (Inl e)
  from check_url_error [where net = net, OF assms Inl] show ?thesis by simp
next
  case (Inr c)
  show ?thesis
  proof (cases "c = 200")
    case True
    with Inr check_url_found [where net = net, OF assms] show ?thesis by simp
  next
    case False
    with Inr check_url_not_found [where net = net and c = c, OF assms] show ?thesis by simp
  qed
qed

lemma length_run_tasks: "length (run_tasks fn args order futures) = length futures"
  by (induction order arbitrary: futures) auto

lemma run_tasks_nth:
  "length futures = length args \<Longrightarrow> i < length args \<Longrightarrow>
   run_tasks fn args order futures ! i =
     (if i \<in> set order then Some (fn (args ! i)) else futures ! i)"
proof (induction order arbitrary: futures)
  case Nil
  then show ?case by simp
next
  case (Cons j order)
  let ?f = "if j < length args then futures[j := Some (fn (args ! j))] else futures"
  have len: "length ?f = length args" using Cons.prems(1) by simp
  have "run_tasks fn args (j # order) futures ! i =
      (if i \<in> set order then Some (fn (args ! i)) else ?f ! i)"
    using Cons.IH [OF len Cons.prems(2)] by simp
  also have "\<dots> = (if i \<in> set (j # order) then Some (fn (args ! i)) else futures ! i)"
    using Cons.prems by (auto simp: nth_list_update)
  finally show ?case .
qed

lemma run_tasks_complete:
  assumes "set [0..<length args] \<subseteq> set order"
  shows "run_tasks fn args order (replicate (length args) None) = map Some (map fn args)"
proof (rule nth_equalityI)
  show "length (run_tasks fn args order (replicate (length args) None)) =
      length (map Some (map fn args))"
    by (simp add: length_run_tasks)
next
  fix i
  assume "i < length (run_tasks fn args order (replicate (length args) None))"
  then have i: "i < length args" by (simp add: length_run_tasks)
  then have "i \<in> set order" using assms by auto
  then show "run_tasks fn args order (replicate (length args) None) ! i =
      map Some (map fn args) ! i"
    using i by (simp add: run_tasks_nth)
qed

lemma those_map_Some: "those (map Some xs) = Some xs"
  by (induction xs) auto

lemma results_in_order_all: "results_in_order (map Inr rs) = Inr rs"
  by (induction rs) auto

lemma executor_map_in_order:
  assumes "set [0..<length args] \<subseteq> set order" and "map fn args = map Inr rs"
  shows "executor_map order fn args = Some (Inr rs)"
proof -
  have "run_tasks fn args order (replicate (length args) None) = map Some (map fn args)"
    using assms(1) by (rule run_tasks_complete)
  also have "\<dots> = map Some (map Inr rs)" by (simp only: assms(2))
  finally have "those (run_tasks fn args order (replicate (length args) None)) =
      Some (map Inr rs)" by (simp only: those_map_Some)
  then show ?thesis by (simp add: executor_map_def results_in_order_all)
qed

lemma check_url_sites:
  "\<exists>rs. map (check_url net) sites = map Inr rs \<and>
        map (\<lambda>r. dict_get r ''url'') rs = map (\<lambda>u. Some (PStr u)) sites"
  if "\<forall>u\<in>set sites. \<exists>label. platform_label u = Inr label"
  using that
proof (induction sites)
  case Nil
  then show ?case by simp
next
  case (Cons u sites)
  from Cons.prems obtain label where "platform_label u = Inr label" by auto
  from check_url_returns [where net = net, OF this] obtain r where
    r: "check_url net u = Inr r" "dict_get r ''url'' = Some (PStr u)" by blast
  from Cons obtain rs where rs: "map (check_url net) sites = map Inr rs"
    "map (\<lambda>r. dict_get r ''url'') rs = map (\<lambda>u. Some (PStr u)) sites" by auto
  have "map (check_url net) (u # sites) = map Inr (r # rs) \<and>
        map (\<lambda>r. dict_get r ''url'') (r # rs) = map (\<lambda>u. Some (PStr u)) (u # sites)"
    using r rs by simp
  then show ?case by blast
qed

lemma sites_alice:
  "''https://twitter.com/alice'' \<in> set (sites_to_check ''alice'')"
  "''https://github.com/alice'' \<in> set (sites_to_check ''alice'')"
  "''https://www.facebook.com/alice'' \<in> set (sites_to_check ''alice'')"
  by (simp_all add: sites_to_check_def)

subsection \<open>The classification of one check\<close>

text \<open>
  Claim C8: for each of the probed URLs and whatever the network answers,
  \<open>check_url\<close> returns a result and raises nothing. A response with status 200 is
  reported as \<open>Found\<close>, a response with any other status as \<open>Not found\<close>, both
  with the status code; an exception raised by the request is reported as \<open>Error\<close>
  with the text of the exception in place of the code.
\<close>

theorem check_url_classifies:
  assumes "u \<in> set (sites_to_check target)"
  shows "\<exists>label. platform_label u = Inr label \<and>
     (net u = Inr 200 \<longrightarrow>
        check_url net u = Inr [(''platform'', PStr label), (''url'', PStr u),
                               (''status'', PStr ''Found''), (''response_code'', PInt 200)]) \<and>
     (\<forall>c. net u = Inr c \<and> c \<noteq> 200 \<longrightarrow>
        check_url net u = Inr [(''platform'', PStr label), (''url'', PStr u),
                               (''status'', PStr ''Not found''), (''response_code'', PInt c)]) \<and>
     (\<forall>e. net u = Inl e \<longrightarrow>
        check_url net u = Inr [(''platform'', PStr label), (''url'', PStr u),
                               (''status'', PStr ''Error''),
                               (''response_code'', PStr (str_of_exn e))])"
proof -
  from platform_label_site [OF assms] obtain label where l: "platform_label u = Inr label"
    by blast
  show ?thesis
    using l check_url_found [where net = net, OF l]
      check_url_not_found [where net = net, OF l] check_url_error [where net = net, OF l]
    by blast
qed

text \<open>
  The theorem at the sites of the handle \<open>alice\<close> on the example network: a 200,
  a 404 and a timeout.
\<close>

theorem check_url_witness:
  "''https://twitter.com/alice'' \<in> set (sites_to_check ''alice'') \<and>
   check_url example_net ''https://twitter.com/alice'' =
     Inr [(''platform'', PStr ''Twitter''), (''url'', PStr ''https://twitter.com/alice''),
          (''status'', PStr ''Found''), (''response_code'', PInt 200)] \<and>
   check_url example_net ''https://github.com/alice'' =
     Inr [(''platform'', PStr ''Github''), (''url'', PStr ''https://github.com/alice''),
          (''status'', PStr ''Not found''), (''response_code'', PInt 404)] \<and>
   check_url example_net ''https://www.facebook.com/alice'' =
     Inr [(''platform'', PStr ''Facebook''), (''url'', PStr ''https://www.facebook.com/alice''),
          (''status'', PStr ''Error''), (''response_code'', PStr ''timed out'')]"
proof -
  have n1: "example_net ''https://twitter.com/alice'' = Inr 200"
    and n2: "example_net ''https://github.com/alice'' = Inr 404"
    and n3: "example_net ''https://www.facebook.com/alice'' = Inl (RequestError ''timed out'')"
    by (simp_all add: example_net_def)
  have l1: "platform_label ''https://twitter.com/alice'' = Inr ''Twitter''"
    using platform_twitter [of "''alice''"] by simp
  have l2: "platform_label ''https://github.com/alice'' = Inr ''Github''"
    using platform_github [of "''alice''"] by simp
  have l3: "platform_label ''https://www.facebook.com/alice'' = Inr ''Facebook''"
    using platform_facebook [of "''alice''"] by simp
  have r1: "check_url example_net ''https://twitter.com/alice'' =
     Inr [(''platform'', PStr ''Twitter''), (''url'', PStr ''https://twitter.com/alice''),
          (''status'', PStr ''Found''), (''response_code'', PInt 200)]"
    using check_url_classifies [OF sites_alice(1), where net = example_net] n1 l1 by auto
  have r2: "check_url example_net ''https://github.com/alice'' =
     Inr [(''platform'', PStr ''Github''), (''url'', PStr ''https://github.com/alice''),
          (''status'', PStr ''Not found''), (''response_code'', PInt 404)]"
    using check_url_classifies [OF sites_alice(2), where net = example_net] n2 l2 by auto
  have r3: "check_url example_net ''https://www.facebook.com/alice'' =
     Inr [(''platform'', PStr ''Facebook''), (''url'', PStr ''https://www.facebook.com/alice''),
          (''status'', PStr ''Error''), (''response_code'', PStr ''timed out'')]"
    using check_url_classifies [OF sites_alice(3), where net = example_net] n3 l3 by auto
  from sites_alice(1) r1 r2 r3 show ?thesis by blast
qed

subsection \<open>One result per site, in the order of the sites\<close>

text \<open>
  Claim C7: whatever the order in which the seven tasks complete, and whatever the
  network answers, \<open>search_external_references\<close> returns seven results, the
  \<open>i\<close>-th being the result of the check of the \<open>i\<close>-th site and carrying its
  URL. The list of sites is fixed in the code, so the number of results is seven.
\<close>

theorem presence_results_in_site_order:
  assumes "set [0..<7] \<subseteq> set order"
  shows "\<exists>rs. search_external_references net order target = Some (Inr rs) \<and>
           length rs = 7 \<and>
           map Inr rs = map (check_url net) (sites_to_check target) \<and>
           map (\<lambda>r. dict_get r ''url'') rs = map (\<lambda>u. Some (PStr u)) (sites_to_check target)"
proof -
  have len: "length (sites_to_check target) = 7" by (simp add: sites_to_check_def)
  have "\<forall>u\<in>set (sites_to_check target). \<exists>label. platform_label u = Inr label"
    using platform_label_site by blast
  from check_url_sites [where net = net, OF this] obtain rs where
    rs: "map (check_url net) (sites_to_check target) = map Inr rs"
    "map (\<lambda>r. dict_get r ''url'') rs = map (\<lambda>u. Some (PStr u)) (sites_to_check target)"
    by blast
  have l: "length rs = 7" using rs(1) len by (metis length_map)
  have "set [0..<length (sites_to_check target)] \<subseteq> set order" using assms len by simp
  from executor_map_in_order [OF this rs(1)]
  have "search_external_references net order target = Some (Inr rs)"
    by (simp add: search_external_references_def)
  with rs l show ?thesis by auto
qed

text \<open>
  The theorem for the handle \<open>alice\<close> when the tasks complete in reverse order.
\<close>

theorem presence_results_witness:
  "set [0..<7] \<subseteq> set [6, 5, 4, 3, 2, 1, 0 :: nat] \<and>
   (\<exists>rs. search_external_references example_net [6, 5, 4, 3, 2, 1, 0] ''alice'' =
            Some (Inr rs) \<and>
         length rs = 7 \<and>
         map Inr rs = map (check_url example_net) (sites_to_check ''alice'') \<and>
         map (\<lambda>r. dict_get r ''url'') rs =
           map (\<lambda>u. Some (PStr u)) (sites_to_check ''alice''))"
proof -
  have h: "set [0..<7] \<subseteq> set [6, 5, 4, 3, 2, 1, 0 :: nat]"
    by (simp add: upt_rec)
  from presence_results_in_site_order [OF h] h show ?thesis by blast
qed

section \<open>Properties of the CSV export\<close>

subsection \<open>Writing the rows\<close>

lemma dict_to_list_extra:
  "has_extra_field keys r \<Longrightarrow>
   dict_to_list keys r = Inl (ValueError ''dict contains fields not in fieldnames'')"
  by (auto simp: dict_to_list_def has_extra_field_def filter_empty_conv)

lemma dict_to_list_fill:
  "\<not> has_extra_field keys r \<Longrightarrow> dict_to_list keys r = Inr (fill_row keys r)"
  by (auto simp: dict_to_list_def has_extra_field_def filter_empty_conv fill_row_def)

lemma writerows_all:
  "list_all (\<lambda>r. \<not> has_extra_field keys r) rs \<Longrightarrow>
   writerows keys rs rows = (rows @ map (fill_row keys) rs, None)"
  by (induction rs arbitrary: rows) (simp_all add: dict_to_list_fill)

lemma writerows_raises:
  "list_ex (has_extra_field keys) rs \<Longrightarrow>
   writerows keys rs rows =
     (rows @ map (fill_row keys) (takeWhile (\<lambda>r. \<not> has_extra_field keys r) rs),
      Some (ValueError ''dict contains fields not in fieldnames''))"
proof (induction rs arbitrary: rows)
  case Nil
  then show ?case by simp
next
  case (Cons r rs)
  show ?case
  proof (cases "has_extra_field keys r")
    case True
    then show ?thesis by (simp add: dict_to_list_extra)
  next
    case False
    with Cons.prems have "list_ex (has_extra_field keys) rs" by simp
    from Cons.IH [OF this] False show ?thesis by (simp add: dict_to_list_fill)
  qed
qed

lemma first_has_no_extra: "\<not> has_extra_field (dict_keys first) first"
  by (simp add: has_extra_field_def)

lemmas csv_eval = write_dicts_def dict_to_list_def dict_keys_def has_extra_field_def
  fill_row_def

subsection \<open>Records of different shapes\<close>

text \<open>
  Claim C4, as the code has it: the field names of the posts and of the locations file
  are the keys of the first record. When a later record has a key that is no field
  name, writing it raises \<open>ValueError\<close>: the file keeps the header and the rows
  written before that record, and the exception leaves \<open>export_results\<close>. When no
  record has such a key, nothing is raised, and a field that a record does not have is
  written as the empty string.
\<close>

theorem csv_extra_fields_raise_missing_fields_default:
  "(list_ex (has_extra_field (dict_keys first)) rest \<longrightarrow>
      write_dicts (first # rest) =
        (map PStr (dict_keys first) #
           map (fill_row (dict_keys first))
             (first # takeWhile (\<lambda>r. \<not> has_extra_field (dict_keys first) r) rest),
         Some (ValueError ''dict contains fields not in fieldnames'')) \<and>
      snd (export_results_csv output_file profile_data (bundle_of_posts (first # rest))) =
        Some (ValueError ''dict contains fields not in fieldnames'')) \<and>
   (list_all (\<lambda>r. \<not> has_extra_field (dict_keys first) r) rest \<longrightarrow>
      write_dicts (first # rest) =
        (map PStr (dict_keys first) # map (fill_row (dict_keys first)) (first # rest), None) \<and>
      snd (export_results_csv output_file profile_data (bundle_of_posts (first # rest))) = None) \<and>
   (dict_get r key = None \<longrightarrow> key \<in> set keys \<longrightarrow> \<not> has_extra_field keys r \<longrightarrow>
      (\<exists>row. dict_to_list keys r = Inr row \<and> length row = length keys \<and>
             (\<forall>i<length keys. keys ! i = key \<longrightarrow> row ! i = PStr [])))"
proof (intro conjI impI)
  assume a: "list_ex (has_extra_field (dict_keys first)) rest"
  then have "list_ex (has_extra_field (dict_keys first)) (first # rest)" by simp
  from writerows_raises [OF this, where rows = "[map PStr (dict_keys first)]"]
  have "writerows (dict_keys first) (first # rest) [map PStr (dict_keys first)] =
        (map PStr (dict_keys first) #
           map (fill_row (dict_keys first))
             (first # takeWhile (\<lambda>r. \<not> has_extra_field (dict_keys first) r) rest),
         Some (ValueError ''dict contains fields not in fieldnames''))"
    by (simp add: first_has_no_extra)
  then show w: "write_dicts (first # rest) =
        (map PStr (dict_keys first) #
           map (fill_row (dict_keys first))
             (first # takeWhile (\<lambda>r. \<not> has_extra_field (dict_keys first) r) rest),
         Some (ValueError ''dict contains fields not in fieldnames''))"
    by (simp only: write_dicts_def list.case Let_def)
  show "snd (export_results_csv output_file profile_data (bundle_of_posts (first # rest))) =
        Some (ValueError ''dict contains fields not in fieldnames'')"
    by (simp add: export_results_csv_def bundle_of_posts_def w empty_results_def)
next
  assume a: "list_all (\<lambda>r. \<not> has_extra_field (dict_keys first) r) rest"
  then have "list_all (\<lambda>r. \<not> has_extra_field (dict_keys first) r) (first # rest)"
    by (simp add: first_has_no_extra)
  from writerows_all [OF this, where rows = "[map PStr (dict_keys first)]"]
  have "writerows (dict_keys first) (first # rest) [map PStr (dict_keys first)] =
        (map PStr (dict_keys first) # map (fill_row (dict_keys first)) (first # rest), None)"
    by simp
  then show w: "write_dicts (first # rest) =
        (map PStr (dict_keys first) # map (fill_row (dict_keys first)) (first # rest), None)"
    by (simp only: write_dicts_def list.case Let_def)
  show "snd (export_results_csv output_file profile_data (bundle_of_posts (first # rest))) = None"
    by (simp add: export_results_csv_def bundle_of_posts_def w empty_results_def)
next
  assume "dict_get r key = None" "key \<in> set keys" "\<not> has_extra_field keys r"
  then show "\<exists>row. dict_to_list keys r = Inr row \<and> length row = length keys \<and>
             (\<forall>i<length keys. keys ! i = key \<longrightarrow> row ! i = PStr [])"
    by (simp add: dict_to_list_fill fill_row_def)
qed

text \<open>
  The theorem at two records where the second has the extra field \<open>b\<close>, and at two
  records where the second lacks the field \<open>b\<close>.
\<close>

theorem csv_export_witness:
  "list_ex (has_extra_field (dict_keys [(''a'', PInt 1)])) [[(''a'', PInt 2), (''b'', PInt 3)]] \<and>
   snd (write_dicts records_extra) =
     Some (ValueError ''dict contains fields not in fieldnames'') \<and>
   snd (export_results_csv ''results/alice'' [] (bundle_of_posts records_extra)) =
     Some (ValueError ''dict contains fields not in fieldnames'') \<and>
   list_all (\<lambda>r. \<not> has_extra_field (dict_keys [(''a'', PInt 1), (''b'', PInt 2)]) r)
     [[(''a'', PInt 3)]] \<and>
   write_dicts records_missing =
     ([[PStr ''a'', PStr ''b''], [PInt 1, PInt 2], [PInt 3, PStr []]], None) \<and>
   snd (export_results_csv ''results/alice'' [] (bundle_of_posts records_missing)) = None"
proof -
  have h1: "list_ex (has_extra_field (dict_keys [(''a'', PInt 1)]))
      [[(''a'', PInt 2), (''b'', PInt 3)]]"
    by (simp add: has_extra_field_def dict_keys_def)
  have h2: "list_all (\<lambda>r. \<not> has_extra_field (dict_keys [(''a'', PInt 1), (''b'', PInt 2)]) r)
      [[(''a'', PInt 3)]]"
    by (simp add: has_extra_field_def dict_keys_def)
  note t1 = csv_extra_fields_raise_missing_fields_default
    [where first = "[(''a'', PInt 1)]" and rest = "[[(''a'', PInt 2), (''b'', PInt 3)]]"
       and output_file = "''results/alice''" and profile_data = "[]"]
  note t2 = csv_extra_fields_raise_missing_fields_default
    [where first = "[(''a'', PInt 1), (''b'', PInt 2)]" and rest = "[[(''a'', PInt 3)]]"
       and output_file = "''results/alice''" and profile_data = "[]"]
  have a: "snd (write_dicts records_extra) =
       Some (ValueError ''dict contains fields not in fieldnames'') \<and>
     snd (export_results_csv ''results/alice'' [] (bundle_of_posts records_extra)) =
       Some (ValueError ''dict contains fields not in fieldnames'')"
    using t1 h1 unfolding records_extra_def by simp
  have b: "write_dicts records_missing =
       ([[PStr ''a'', PStr ''b''], [PInt 1, PInt 2], [PInt 3, PStr []]], None) \<and>
     snd (export_results_csv ''results/alice'' [] (bundle_of_posts records_missing)) = None"
    using t2 h2 unfolding records_missing_def by (simp add: fill_row_def dict_keys_def)
  from h1 h2 a b show ?thesis by blast
qed

text \<open>
  Against claim C4 as stated: the extra field of a later record is not dropped, the
  write raises after the first row; the missing field of a later record is no error,
  its cell is the empty string.
\<close>

theorem csv_heterogeneous_records:
  "write_dicts records_extra =
     ([[PStr ''a''], [PInt 1]], Some (ValueError ''dict contains fields not in fieldnames'')) \<and>
   write_dicts records_missing =
     ([[PStr ''a'', PStr ''b''], [PInt 1, PInt 2], [PInt 3, PStr []]], None)"
  by (simp add: records_extra_def records_missing_def csv_eval)

end
